theory Spec2Isabelle
  imports Main
begin

section \<open>The generation-and-history hook of sketch-to-sky-ui\<close>

text \<open>
  This theory embeds \<^verbatim>\<open>src/hooks/useModelGenerator.ts\<close>: the two storage helpers
  \<^verbatim>\<open>readHistory\<close> and \<^verbatim>\<open>persistHistory\<close>, the mutation (\<^verbatim>\<open>mutationFn\<close> and
  \<^verbatim>\<open>onSuccess\<close>), the derived \<^verbatim>\<open>selectedModel\<close>, and the operations the hook returns.

  Conventions.
  \<^item> A JavaScript string is a \<open>string\<close>; its characters are the code units below 256.
  \<^item> A value read from storage is a \<open>json\<close> value: \<^verbatim>\<open>readHistory\<close> casts the parsed
    array to \<^verbatim>\<open>GeneratedModel[]\<close> without looking at its elements, so the elements of
    the history are arbitrary JSON values. An object lists the properties that hold a
    value; a property holding \<^verbatim>\<open>undefined\<close> reads like a missing one and is left out
    (as \<^verbatim>\<open>JSON.stringify\<close> leaves it out).
  \<^item> \<^verbatim>\<open>JSON.parse\<close> and \<^verbatim>\<open>JSON.stringify\<close> belong to the JavaScript runtime, not to
    the repository. The hook is modelled over any pair of them (the record \<open>runtime\<close>;
    \<open>None\<close> from \<open>JSON_parse\<close> stands for the \<^verbatim>\<open>SyntaxError\<close> it throws), and what
    is proved of the hook holds for every such pair. The round trip through the storage
    is about the functions themselves and is stated for \<open>js_runtime\<close>, which follows
    their definition in ECMAScript.
  \<^item> The identifier (\<^verbatim>\<open>crypto.randomUUID()\<close> or \<^verbatim>\<open>Date.now()\<close>) and the timestamp
    that \<^verbatim>\<open>onSuccess\<close> reads from the environment are arguments of the step that runs it.
  \<^item> \<^verbatim>\<open>useQuery\<close> and \<^verbatim>\<open>useMutation\<close> come from the query library. The model keeps
    what the hook relies on: the query data is set once from \<^verbatim>\<open>initialData\<close> and then
    only by \<^verbatim>\<open>setQueryData\<close>; every \<^verbatim>\<open>mutateAsync\<close> call is a mutation of its own,
    the \<^verbatim>\<open>onSuccess\<close> given to \<^verbatim>\<open>useMutation\<close> runs for each mutation whose
    \<^verbatim>\<open>mutationFn\<close> resolves, and the state \<^verbatim>\<open>useMutation\<close> returns is that of the
    latest call.
  \<^item> \<^verbatim>\<open>console.warn\<close> is not modelled.
\<close>

subsection \<open>Values\<close>

typedecl double
  \<comment> \<open>a finite IEEE double; nothing in the hook computes with numbers\<close>

datatype jsnumber = Finite double | PosInfinity | NegInfinity | NaN

datatype json =
    JNull
  | JBool bool
  | JNum jsnumber
  | JStr string
  | JArr "json list"
  | JObj "(string \<times> json) list"

datatype js_exception = TypeError | SyntaxError | SecurityError | QuotaExceededError

text \<open>Reading a property such as \<^verbatim>\<open>item.id\<close>: on \<^verbatim>\<open>null\<close> it throws; a boolean, a
  number, a string or an array has no property of the names read here (\<^verbatim>\<open>id\<close>,
  \<^verbatim>\<open>prompt\<close>, \<^verbatim>\<open>url\<close>), which gives \<^verbatim>\<open>undefined\<close>; an object gives the value stored
  under the key, if any.\<close>

fun get_prop :: "json \<Rightarrow> string \<Rightarrow> js_exception + json option" where
  "get_prop JNull k = Inl TypeError"
| "get_prop (JObj kvs) k = Inr (map_of kvs k)"
| "get_prop _ k = Inr None"

text \<open>\<^verbatim>\<open>String.prototype.trim\<close> removes white space and line terminators at both ends:
  TAB, LF, VT, FF, CR, SPACE and NBSP among the code units below 256.\<close>

definition is_ws :: "char \<Rightarrow> bool" where
  "is_ws c \<longleftrightarrow> c \<in> set [CHR 0x09, CHR 0x0A, CHR 0x0B, CHR 0x0C, CHR 0x0D, CHR 0x20, CHR 0xA0]"

definition trim :: "string \<Rightarrow> string" where
  "trim s = rev (dropWhile is_ws (rev (dropWhile is_ws s)))"

subsection \<open>The runtime\<close>

record runtime =
  JSON_parse :: "string \<Rightarrow> json option"
  JSON_stringify :: "json \<Rightarrow> string"

subsection \<open>The JSON functions of the JavaScript runtime\<close>

text \<open>
  \<^verbatim>\<open>JSON.stringify\<close> and \<^verbatim>\<open>JSON.parse\<close> as ECMAScript defines them, on the values and
  the alphabet of this model. The two conversions between a finite double and its number
  literal are floating-point computations and stay parameters: \<open>Number_toString\<close> writes
  a finite double, \<open>StringToNumber\<close> reads a number token (\<open>None\<close> when the token is
  not a JSON number literal).
\<close>

record number_text =
  Number_toString :: "double \<Rightarrow> string"
  StringToNumber :: "string \<Rightarrow> jsnumber option"

text \<open>Quoting a string: the quotation mark and the backslash are escaped, backspace,
  form feed, line feed, carriage return and tab have their short escapes, any other code
  unit below 0x20 is written as \<^verbatim>\<open>\u00XX\<close> in lower-case hexadecimal digits, and every
  other code unit stands for itself.\<close>

definition hex_digit :: "nat \<Rightarrow> char" where
  "hex_digit n = (if n < 10 then char_of (48 + n) else char_of (87 + n))"

definition escape_char :: "char \<Rightarrow> string" where
  "escape_char c =
     (if c = CHR 0x22 then [CHR 0x5C, CHR 0x22]
      else if c = CHR 0x5C then [CHR 0x5C, CHR 0x5C]
      else if c = CHR 0x08 then [CHR 0x5C, CHR ''b'']
      else if c = CHR 0x0C then [CHR 0x5C, CHR ''f'']
      else if c = CHR 0x0A then [CHR 0x5C, CHR ''n'']
      else if c = CHR 0x0D then [CHR 0x5C, CHR ''r'']
      else if c = CHR 0x09 then [CHR 0x5C, CHR ''t'']
      else if of_char c < (0x20 :: nat)
        then [CHR 0x5C, CHR ''u'', CHR ''0'', CHR ''0'',
              hex_digit (of_char c div 16), hex_digit (of_char c mod 16)]
      else [c])"

definition quote :: "string \<Rightarrow> string" where
  "quote t = CHR 0x22 # concat (map escape_char t) @ [CHR 0x22]"

text \<open>Elements and members are separated by commas, without white space.\<close>

fun join :: "string list \<Rightarrow> string" where
  "join [] = []"
| "join [x] = x"
| "join (x # y # ys) = x @ CHR '','' # join (y # ys)"

text \<open>\<^verbatim>\<open>JSON.stringify(value)\<close>: a number that is not finite is written as
  \<^verbatim>\<open>null\<close>; the members of an object are written in the order of its properties.\<close>

fun stringify_json :: "number_text \<Rightarrow> json \<Rightarrow> string" where
  "stringify_json nt JNull = ''null''"
| "stringify_json nt (JBool b) = (if b then ''true'' else ''false'')"
| "stringify_json nt (JNum x) = (case x of Finite d \<Rightarrow> Number_toString nt d | _ \<Rightarrow> ''null'')"
| "stringify_json nt (JStr t) = quote t"
| "stringify_json nt (JArr xs) = CHR ''['' # join (map (stringify_json nt) xs) @ '']''"
| "stringify_json nt (JObj kvs) =
     CHR ''{'' # join (map (\<lambda>kv. quote (fst kv) @ CHR '':'' # stringify_json nt (snd kv)) kvs)
     @ ''}''"

text \<open>Reading a string after its opening quotation mark, up to the closing one: the
  text read and the rest. A raw code unit below 0x20 is an error, as is an unknown
  escape; \<^verbatim>\<open>\uXXXX\<close> takes four hexadecimal digits of either case. A code unit above
  0xFF is outside the alphabet of the model and is refused.\<close>

definition hex_value :: "char \<Rightarrow> nat option" where
  "hex_value c =
     (let k = (of_char c :: nat)
      in if 48 \<le> k \<and> k \<le> 57 then Some (k - 48)
         else if 97 \<le> k \<and> k \<le> 102 then Some (k - 87)
         else if 65 \<le> k \<and> k \<le> 70 then Some (k - 55)
         else None)"

definition code_unit :: "char \<Rightarrow> char \<Rightarrow> char \<Rightarrow> char \<Rightarrow> char option" where
  "code_unit h1 h2 h3 h4 =
     (case (hex_value h1, hex_value h2, hex_value h3, hex_value h4) of
        (Some a, Some b, Some c, Some d) \<Rightarrow>
          (let n = ((a * 16 + b) * 16 + c) * 16 + d
           in if n < 256 then Some (char_of n) else None)
      | _ \<Rightarrow> None)"

definition unescape :: "char \<Rightarrow> char option" where
  "unescape e =
     (if e = CHR 0x22 then Some (CHR 0x22)
      else if e = CHR 0x5C then Some (CHR 0x5C)
      else if e = CHR ''/'' then Some (CHR ''/'')
      else if e = CHR ''b'' then Some (CHR 0x08)
      else if e = CHR ''f'' then Some (CHR 0x0C)
      else if e = CHR ''n'' then Some (CHR 0x0A)
      else if e = CHR ''r'' then Some (CHR 0x0D)
      else if e = CHR ''t'' then Some (CHR 0x09)
      else None)"

fun parse_chars :: "string \<Rightarrow> (string \<times> string) option" where
  "parse_chars [] = None"
| "parse_chars (c # cs) =
     (if c = CHR 0x22 then Some ([], cs)
      else if c = CHR 0x5C then
        (case cs of
           [] \<Rightarrow> None
         | e # cs1 \<Rightarrow>
             if e = CHR ''u'' then
               (case cs1 of
                  h1 # h2 # h3 # h4 # cs2 \<Rightarrow>
                    (case code_unit h1 h2 h3 h4 of
                       None \<Rightarrow> None
                     | Some x \<Rightarrow>
                         (case parse_chars cs2 of
                            None \<Rightarrow> None
                          | Some (t, r) \<Rightarrow> Some (x # t, r)))
                | _ \<Rightarrow> None)
             else
               (case unescape e of
                  None \<Rightarrow> None
                | Some x \<Rightarrow>
                    (case parse_chars cs1 of
                       None \<Rightarrow> None
                     | Some (t, r) \<Rightarrow> Some (x # t, r))))
      else if of_char c < (0x20 :: nat) then None
      else (case parse_chars cs of None \<Rightarrow> None | Some (t, r) \<Rightarrow> Some (c # t, r)))"

text \<open>White space between tokens, and the characters a number token is made of.\<close>

definition is_json_ws :: "char \<Rightarrow> bool" where
  "is_json_ws c \<longleftrightarrow> c \<in> set [CHR 0x20, CHR 0x09, CHR 0x0A, CHR 0x0D]"

definition skip_ws :: "string \<Rightarrow> string" where
  "skip_ws s = dropWhile is_json_ws s"

definition is_digit :: "char \<Rightarrow> bool" where
  "is_digit c \<longleftrightarrow> c \<in> set ''0123456789''"

definition is_number_char :: "char \<Rightarrow> bool" where
  "is_number_char c \<longleftrightarrow> c \<in> set ''0123456789+-.eE''"

text \<open>Defining a property while an object is read: a key met again keeps its place and
  takes the later value.\<close>

fun set_property :: "string \<Rightarrow> json \<Rightarrow> (string \<times> json) list \<Rightarrow> (string \<times> json) list" where
  "set_property k v [] = [(k, v)]"
| "set_property k v (p # ps) = (if fst p = k then (k, v) # ps else p # set_property k v ps)"

text \<open>Reading a value, the elements of an array after its first bracket, and the members
  of an object after its first brace: the value read and the rest of the text. The
  recursion is bounded by its second argument; every nested value and every further
  element or member takes one unit. The properties of an object are listed in the order
  of the text.\<close>

fun parse_value :: "number_text \<Rightarrow> nat \<Rightarrow> string \<Rightarrow> (json \<times> string) option"
  and parse_elements :: "number_text \<Rightarrow> nat \<Rightarrow> string \<Rightarrow> (json list \<times> string) option"
  and parse_members ::
    "number_text \<Rightarrow> nat \<Rightarrow> (string \<times> json) list \<Rightarrow> string
      \<Rightarrow> ((string \<times> json) list \<times> string) option"
  where
  "parse_value nt 0 s = None"
| "parse_value nt (Suc n) s =
     (case skip_ws s of
        [] \<Rightarrow> None
      | c # cs \<Rightarrow>
          if c = CHR 0x22 then
            (case parse_chars cs of None \<Rightarrow> None | Some (t, r) \<Rightarrow> Some (JStr t, r))
          else if c = CHR ''['' then
            (case skip_ws cs of
               [] \<Rightarrow> None
             | c1 # cs1 \<Rightarrow>
                 if c1 = CHR '']'' then Some (JArr [], cs1)
                 else (case parse_elements nt n (c1 # cs1) of
                         None \<Rightarrow> None
                       | Some (xs, r) \<Rightarrow> Some (JArr xs, r)))
          else if c = CHR ''{'' then
            (case skip_ws cs of
               [] \<Rightarrow> None
             | c1 # cs1 \<Rightarrow>
                 if c1 = CHR ''}'' then Some (JObj [], cs1)
                 else (case parse_members nt n [] (c1 # cs1) of
                         None \<Rightarrow> None
                       | Some (kvs, r) \<Rightarrow> Some (JObj kvs, r)))
          else if c = CHR ''-'' \<or> is_digit c then
            (case StringToNumber nt (takeWhile is_number_char (c # cs)) of
               None \<Rightarrow> None
             | Some x \<Rightarrow> Some (JNum x, dropWhile is_number_char (c # cs)))
          else if take 4 (c # cs) = ''true'' then Some (JBool True, drop 4 (c # cs))
          else if take 5 (c # cs) = ''false'' then Some (JBool False, drop 5 (c # cs))
          else if take 4 (c # cs) = ''null'' then Some (JNull, drop 4 (c # cs))
          else None)"
| "parse_elements nt 0 s = None"
| "parse_elements nt (Suc n) s =
     (case parse_value nt n s of
        None \<Rightarrow> None
      | Some (x, r) \<Rightarrow>
          (case skip_ws r of
             [] \<Rightarrow> None
           | c # cs \<Rightarrow>
               if c = CHR '','' then
                 (case parse_elements nt n cs of
                    None \<Rightarrow> None
                  | Some (xs, r') \<Rightarrow> Some (x # xs, r'))
               else if c = CHR '']'' then Some ([x], cs)
               else None))"
| "parse_members nt 0 acc s = None"
| "parse_members nt (Suc n) acc s =
     (case skip_ws s of
        [] \<Rightarrow> None
      | c # cs \<Rightarrow>
          if c = CHR 0x22 then
            (case parse_chars cs of
               None \<Rightarrow> None
             | Some (k, r) \<Rightarrow>
                 (case skip_ws r of
                    [] \<Rightarrow> None
                  | c1 # cs1 \<Rightarrow>
                      if c1 = CHR '':'' then
                        (case parse_value nt n cs1 of
                           None \<Rightarrow> None
                         | Some (v, r1) \<Rightarrow>
                             (case skip_ws r1 of
                                [] \<Rightarrow> None
                              | c2 # cs2 \<Rightarrow>
                                  if c2 = CHR '','' then
                                    parse_members nt n (set_property k v acc) cs2
                                  else if c2 = CHR ''}'' then Some (set_property k v acc, cs2)
                                  else None))
                      else None))
          else None)"

text \<open>\<^verbatim>\<open>JSON.parse(text)\<close>: one value, with nothing but white space after it.\<close>

definition parse_json :: "number_text \<Rightarrow> string \<Rightarrow> json option" where
  "parse_json nt text =
     (case parse_value nt (Suc (length text)) text of
        None \<Rightarrow> None
      | Some (v, r) \<Rightarrow> if skip_ws r = [] then Some v else None)"

definition js_runtime :: "number_text \<Rightarrow> runtime" where
  "js_runtime nt = \<lparr>JSON_parse = parse_json nt, JSON_stringify = stringify_json nt\<rparr>"

subsection \<open>The browser storage\<close>

text \<open>\<^verbatim>\<open>window.localStorage\<close> as the hook sees it: the string under \<^verbatim>\<open>HISTORY_KEY\<close>
  (\<open>None\<close> is \<^verbatim>\<open>null\<close>), whether reading throws (storage disabled), and which writes
  throw (quota).\<close>

record Storage =
  item :: "string option"
  getItem_throws :: bool
  setItem_throws :: "string \<Rightarrow> bool"

text \<open>The body of the \<^verbatim>\<open>try\<close> block of \<^verbatim>\<open>readHistory\<close>.\<close>

definition readHistory_try :: "runtime \<Rightarrow> Storage \<Rightarrow> js_exception + json list" where
  "readHistory_try rt st =
     (if getItem_throws st then Inl SecurityError
      else case item st of
        None \<Rightarrow> Inr []
      | Some data \<Rightarrow>
          if data = [] then Inr []
          else (case JSON_parse rt data of
                  None \<Rightarrow> Inl SyntaxError
                | Some parsed \<Rightarrow> Inr (case parsed of JArr xs \<Rightarrow> xs | _ \<Rightarrow> [])))"

text \<open>\<^verbatim>\<open>readHistory\<close>: the argument is \<open>None\<close> when \<^verbatim>\<open>typeof window === 'undefined'\<close>.\<close>

definition readHistory :: "runtime \<Rightarrow> Storage option \<Rightarrow> json list" where
  "readHistory rt w =
     (case w of
        None \<Rightarrow> []
      | Some st \<Rightarrow> (case readHistory_try rt st of Inl error \<Rightarrow> [] | Inr h \<Rightarrow> h))"

text \<open>The body of the \<^verbatim>\<open>try\<close> block of \<^verbatim>\<open>persistHistory\<close>: the storage after
  \<^verbatim>\<open>setItem\<close>, unless it throws.\<close>

definition persistHistory_try :: "runtime \<Rightarrow> json list \<Rightarrow> Storage \<Rightarrow> js_exception + Storage" where
  "persistHistory_try rt entries st =
     (let data = JSON_stringify rt (JArr entries)
      in if setItem_throws st data then Inl QuotaExceededError
         else Inr (st\<lparr>item := Some data\<rparr>))"

text \<open>\<^verbatim>\<open>persistHistory\<close> returns the storage after the call; a throwing \<^verbatim>\<open>setItem\<close>
  is caught and leaves the storage as it was.\<close>

definition persistHistory :: "runtime \<Rightarrow> json list \<Rightarrow> Storage option \<Rightarrow> Storage option" where
  "persistHistory rt entries w =
     (case w of
        None \<Rightarrow> None
      | Some st \<Rightarrow>
          (case persistHistory_try rt entries st of Inl error \<Rightarrow> Some st | Inr st' \<Rightarrow> Some st'))"

subsection \<open>The mutation\<close>

text \<open>The errors a \<^verbatim>\<open>generateModel\<close> call ends with: the two errors \<^verbatim>\<open>mutationFn\<close>
  throws (\<^verbatim>\<open>'Prompt is empty. Please describe the aircraft concept you want to generate.'\<close>
  and \<^verbatim>\<open>'The AI service returned no model URL.'\<close>) and the rejection of
  \<^verbatim>\<open>axios.post\<close>, under the names the specification gives them.\<close>

datatype gen_error = EmptyPromptError | EmptyResponseError | TransportError

record GenerateResponse =
  url :: "string option"
  metadata :: "(string \<times> json) list option"
  thumbnailUrl :: "string option"

record GenerateResult = GenerateResponse +
  prompt :: string

text \<open>What \<^verbatim>\<open>await axios.post<GenerateResponse>(...)\<close> gives: a rejection, or a
  response whose \<^verbatim>\<open>data\<close>, typed by the interface above, may be
  \<^verbatim>\<open>null\<close>/\<^verbatim>\<open>undefined\<close> or carry no \<^verbatim>\<open>url\<close>.\<close>

datatype client_reply = Rejects | Resolves "GenerateResponse option"

text \<open>\<^verbatim>\<open>mutationFn\<close> up to its \<^verbatim>\<open>await\<close>: the empty-prompt check, then the text posted.\<close>

definition mutationFn_request :: "string \<Rightarrow> gen_error + string" where
  "mutationFn_request p = (if trim p = [] then Inl EmptyPromptError else Inr (trim p))"

text \<open>\<^verbatim>\<open>mutationFn\<close> after its \<^verbatim>\<open>await\<close>: \<^verbatim>\<open>!data?.url\<close>, then
  \<^verbatim>\<open>{ ...data, prompt: prompt.trim() }\<close>.\<close>

definition mutationFn_result :: "string \<Rightarrow> client_reply \<Rightarrow> gen_error + GenerateResult" where
  "mutationFn_result p reply =
     (case reply of
        Rejects \<Rightarrow> Inl TransportError
      | Resolves None \<Rightarrow> Inl EmptyResponseError
      | Resolves (Some data) \<Rightarrow>
          (case url data of
             None \<Rightarrow> Inl EmptyResponseError
           | Some u \<Rightarrow>
               if u = [] then Inl EmptyResponseError
               else Inr \<lparr>url = url data, metadata = metadata data,
                         thumbnailUrl = thumbnailUrl data, prompt = trim p\<rparr>))"

text \<open>A property of an object literal: present when its value is defined.\<close>

definition property :: "string \<Rightarrow> json option \<Rightarrow> (string \<times> json) list" where
  "property k v = (case v of None \<Rightarrow> [] | Some x \<Rightarrow> [(k, x)])"

text \<open>The object literal \<^verbatim>\<open>entry\<close> of \<^verbatim>\<open>onSuccess(result, prompt)\<close>. Its \<^verbatim>\<open>prompt\<close>
  is the second argument of \<^verbatim>\<open>onSuccess\<close>, the variable the mutation was called with.\<close>

definition entry :: "string \<Rightarrow> string \<Rightarrow> GenerateResult \<Rightarrow> string \<Rightarrow> json" where
  "entry uuid now result p =
     JObj ([(''id'', JStr uuid), (''prompt'', JStr p)]
           @ property ''url'' (map_option JStr (url result))
           @ property ''thumbnailUrl'' (map_option JStr (thumbnailUrl result))
           @ property ''metadata'' (map_option JObj (metadata result))
           @ [(''createdAt'', JStr now)])"

subsection \<open>The state of the hook\<close>

text \<open>The state one mounted hook owns or reaches: the storage, the data of the query
  \<^verbatim>\<open>['model-history']\<close>, \<^verbatim>\<open>selectedId\<close>, and the mutations. Each \<^verbatim>\<open>mutateAsync\<close>
  call is a mutation of its own, numbered in the order of issue; \<open>inflight\<close> holds the
  variable (the prompt) of every call whose request is awaiting its reply, \<open>current\<close> is
  the call the result of \<^verbatim>\<open>useMutation\<close> reports on (the latest one, until
  \<^verbatim>\<open>reset\<close>), \<open>status\<close> is that report, and \<open>posted\<close> lists the texts sent to the
  service.\<close>

datatype request_state = Idle | Pending | Succeeded | Failed gen_error

record hook_state =
  window :: "Storage option"
  query_data :: "json list option"
  selectedId :: "string option"
  inflight :: "nat \<rightharpoonup> string"
  next_call :: nat
  current :: "nat option"
  status :: request_state
  posted :: "string list"

text \<open>Mounting: \<^verbatim>\<open>initialData: readHistory\<close>, \<^verbatim>\<open>useState(null)\<close>, an idle mutation.
  With \<^verbatim>\<open>staleTime: Infinity\<close> the query function is not run afterwards.\<close>

definition mount :: "runtime \<Rightarrow> Storage option \<Rightarrow> hook_state" where
  "mount rt w =
     \<lparr>window = w, query_data = Some (readHistory rt w), selectedId = None,
      inflight = Map.empty, next_call = 0, current = None, status = Idle, posted = []\<rparr>"

text \<open>\<^verbatim>\<open>const history = historyQuery.data ?? []\<close>\<close>

definition history :: "hook_state \<Rightarrow> json list" where
  "history s = (case query_data s of None \<Rightarrow> [] | Some h \<Rightarrow> h)"

text \<open>\<^verbatim>\<open>item.id === selectedId\<close>, where \<^verbatim>\<open>selectedId\<close> is a string or \<^verbatim>\<open>null\<close>.\<close>

definition strict_eq :: "json option \<Rightarrow> string option \<Rightarrow> bool" where
  "strict_eq v sel =
     (case sel of
        None \<Rightarrow> v = Some JNull
      | Some i \<Rightarrow> v = Some (JStr i))"

text \<open>\<^verbatim>\<open>history.find((item) => item.id === selectedId)\<close>; \<open>None\<close> is \<^verbatim>\<open>undefined\<close>.\<close>

fun find_selected :: "json list \<Rightarrow> string option \<Rightarrow> js_exception + json option" where
  "find_selected [] sel = Inr None"
| "find_selected (x # xs) sel =
     (case get_prop x ''id'' of
        Inl e \<Rightarrow> Inl e
      | Inr v \<Rightarrow> if strict_eq v sel then Inr (Some x) else find_selected xs sel)"

text \<open>\<^verbatim>\<open>x ?? y\<close> on an element of the history: \<^verbatim>\<open>null\<close> and \<^verbatim>\<open>undefined\<close> give way.\<close>

definition nullish :: "json option \<Rightarrow> bool" where
  "nullish v \<longleftrightarrow> v = None \<or> v = Some JNull"

text \<open>\<^verbatim>\<open>history.find(...) ?? history[0] ?? null\<close>; the result \<open>None\<close> is \<^verbatim>\<open>null\<close>.\<close>

definition selectedModel :: "hook_state \<Rightarrow> js_exception + json option" where
  "selectedModel s =
     (case find_selected (history s) (selectedId s) of
        Inl e \<Rightarrow> Inl e
      | Inr found \<Rightarrow>
          if \<not> nullish found then Inr found
          else (let first = (case history s of [] \<Rightarrow> None | x # xs \<Rightarrow> Some x)
                in if \<not> nullish first then Inr first else Inr None))"

text \<open>\<^verbatim>\<open>error: mutation.error instanceof Error ? mutation.error : null\<close> and
  \<^verbatim>\<open>isGenerating: mutation.isPending\<close>.\<close>

definition error :: "hook_state \<Rightarrow> gen_error option" where
  "error s = (case status s of Failed e \<Rightarrow> Some e | _ \<Rightarrow> None)"

definition isGenerating :: "hook_state \<Rightarrow> bool" where
  "isGenerating s \<longleftrightarrow> status s = Pending"

text \<open>The data in the object the hook returns (its other members are the operations
  below). \<^verbatim>\<open>isHistoryLoading\<close> is \<^verbatim>\<open>historyQuery.isFetching && !historyQuery.isFetched\<close>;
  the query has its data from \<^verbatim>\<open>initialData\<close> and never fetches, so it is false.\<close>

record hook_result =
  returned_history :: "json list"
  returned_selectedModel :: "json option"
  returned_isGenerating :: bool
  returned_error :: "gen_error option"
  returned_isHistoryLoading :: bool

text \<open>One render of \<^verbatim>\<open>useModelGenerator\<close> in a given state: \<^verbatim>\<open>history\<close> and
  \<^verbatim>\<open>selectedModel\<close> are computed, then the object is returned. An exception thrown
  while computing \<^verbatim>\<open>selectedModel\<close> leaves the render without a result.\<close>

definition useModelGenerator :: "hook_state \<Rightarrow> js_exception + hook_result" where
  "useModelGenerator s =
     (case selectedModel s of
        Inl e \<Rightarrow> Inl e
      | Inr model \<Rightarrow>
          Inr \<lparr>returned_history = history s,
               returned_selectedModel = model,
               returned_isGenerating = isGenerating s,
               returned_error = error s,
               returned_isHistoryLoading = False\<rparr>)"

subsection \<open>The operations\<close>

text \<open>\<^verbatim>\<open>onSuccess(result, prompt)\<close>: the entry, the updater of \<^verbatim>\<open>setQueryData\<close>
  (\<^verbatim>\<open>[entry, ...(prev ?? [])].slice(0, 20)\<close>, persisted), \<^verbatim>\<open>setSelectedId(entry.id)\<close>.\<close>

definition onSuccess ::
  "runtime \<Rightarrow> string \<Rightarrow> string \<Rightarrow> GenerateResult \<Rightarrow> string \<Rightarrow> hook_state \<Rightarrow> hook_state" where
  "onSuccess rt uuid now result p s =
     (let e = entry uuid now result p;
          next = take 20 (e # (case query_data s of None \<Rightarrow> [] | Some prev \<Rightarrow> prev))
      in s\<lparr>window := persistHistory rt next (window s),
            query_data := Some next,
            selectedId := Some uuid\<rparr>)"

text \<open>\<^verbatim>\<open>generateModel(prompt)\<close> up to the request: \<^verbatim>\<open>mutateAsync\<close> starts a new
  mutation, which the result of \<^verbatim>\<open>useMutation\<close> follows from now on; \<^verbatim>\<open>mutationFn\<close>
  either throws at once or posts the trimmed text and waits.\<close>

definition generateModel :: "string \<Rightarrow> hook_state \<Rightarrow> hook_state" where
  "generateModel p s =
     (let n = next_call s;
          s1 = s\<lparr>next_call := Suc n, current := Some n\<rparr>
      in case mutationFn_request p of
           Inl e \<Rightarrow> s1\<lparr>status := Failed e\<rparr>
         | Inr text \<Rightarrow>
             s1\<lparr>status := Pending, inflight := (inflight s)(n \<mapsto> p),
                posted := posted s @ [text]\<rparr>)"

text \<open>The reply to call \<open>n\<close> arrives: the rest of \<^verbatim>\<open>mutationFn\<close> runs, and on success
  the \<^verbatim>\<open>onSuccess\<close> given to \<^verbatim>\<open>useMutation\<close>, which the library runs for every
  mutation; the reported status changes only when \<open>n\<close> is the call being followed.\<close>

definition settle ::
  "runtime \<Rightarrow> nat \<Rightarrow> client_reply \<Rightarrow> string \<Rightarrow> string \<Rightarrow> hook_state \<Rightarrow> hook_state" where
  "settle rt n reply uuid now s =
     (case inflight s n of
        None \<Rightarrow> s
      | Some p \<Rightarrow>
          (let s1 = s\<lparr>inflight := (inflight s)(n := None)\<rparr>
           in case mutationFn_result p reply of
                Inl e \<Rightarrow> if current s = Some n then s1\<lparr>status := Failed e\<rparr> else s1
              | Inr result \<Rightarrow>
                  (let s2 = onSuccess rt uuid now result p s1
                   in if current s = Some n then s2\<lparr>status := Succeeded\<rparr> else s2)))"

definition selectModel :: "string \<Rightarrow> hook_state \<Rightarrow> hook_state" where
  "selectModel i s = s\<lparr>selectedId := Some i\<rparr>"

definition clearHistory :: "runtime \<Rightarrow> hook_state \<Rightarrow> hook_state" where
  "clearHistory rt s =
     s\<lparr>window := persistHistory rt [] (window s), query_data := Some [], selectedId := None\<rparr>"

text \<open>\<^verbatim>\<open>resetError: mutation.reset\<close>: the result of \<^verbatim>\<open>useMutation\<close> stops following
  its mutation and reports idle.\<close>

definition resetError :: "hook_state \<Rightarrow> hook_state" where
  "resetError s = s\<lparr>current := None, status := Idle\<rparr>"

text \<open>What can happen to a mounted hook, and a run of such events.\<close>

datatype event =
    Generate string
  | Reply nat client_reply string string
  | SelectModel string
  | ClearHistory
  | ResetError

fun step :: "runtime \<Rightarrow> event \<Rightarrow> hook_state \<Rightarrow> hook_state" where
  "step rt (Generate p) s = generateModel p s"
| "step rt (Reply n reply uuid now) s = settle rt n reply uuid now s"
| "step rt (SelectModel i) s = selectModel i s"
| "step rt ClearHistory s = clearHistory rt s"
| "step rt ResetError s = resetError s"

fun run :: "runtime \<Rightarrow> event list \<Rightarrow> hook_state \<Rightarrow> hook_state" where
  "run rt [] s = s"
| "run rt (e # es) s = run rt es (step rt e s)"

subsection \<open>Notions used to state the properties\<close>

text \<open>What \<^verbatim>\<open>item.id\<close> gives on each element of a history, in order.\<close>

definition ids :: "json list \<Rightarrow> (js_exception + json option) list" where
  "ids h = map (\<lambda>x. get_prop x ''id'') h"

text \<open>An element that is an object with a string under \<^verbatim>\<open>id\<close>, as every
  \<^verbatim>\<open>GeneratedModel\<close> is.\<close>

fun has_string_id :: "json \<Rightarrow> bool" where
  "has_string_id (JObj kvs) = (case map_of kvs ''id'' of Some (JStr i) \<Rightarrow> True | _ \<Rightarrow> False)"
| "has_string_id _ = False"

text \<open>The head of a history, if any.\<close>

definition newest :: "json list \<Rightarrow> json option" where
  "newest h = (case h of [] \<Rightarrow> None | x # xs \<Rightarrow> Some x)"

text \<open>The selection rule in the words of the specification: the element whose id is the
  selected one when there is one, otherwise the newest element, otherwise none.\<close>

definition spec_selectedModel :: "json list \<Rightarrow> string option \<Rightarrow> json option" where
  "spec_selectedModel h sel =
     (case sel of
        None \<Rightarrow> newest h
      | Some i \<Rightarrow>
          (case List.find (\<lambda>x. get_prop x ''id'' = Inr (Some (JStr i))) h of
             Some x \<Rightarrow> Some x
           | None \<Rightarrow> newest h))"

text \<open>The id an event brings is new: no element of the current history reads it
  under \<^verbatim>\<open>id\<close>. Only a successful reply to a call in flight brings an id, since only
  then \<^verbatim>\<open>onSuccess\<close> runs; any other event brings none.\<close>

fun event_id_fresh :: "event \<Rightarrow> hook_state \<Rightarrow> bool" where
  "event_id_fresh (Reply n reply uuid now) s \<longleftrightarrow>
     (case inflight s n of
        None \<Rightarrow> True
      | Some p \<Rightarrow>
          (case mutationFn_result p reply of
             Inl e \<Rightarrow> True
           | Inr result \<Rightarrow> Inr (Some (JStr uuid)) \<notin> set (ids (history s))))"
| "event_id_fresh e s \<longleftrightarrow> True"

fun fresh_ids :: "runtime \<Rightarrow> event list \<Rightarrow> hook_state \<Rightarrow> bool" where
  "fresh_ids rt [] s \<longleftrightarrow> True"
| "fresh_ids rt (e # es) s \<longleftrightarrow> event_id_fresh e s \<and> fresh_ids rt es (step rt e s)"

text \<open>The shape of a number token: not empty, starting with a minus sign or a digit,
  made of digits, signs, the point and the exponent letter.\<close>

definition number_token :: "string \<Rightarrow> bool" where
  "number_token t \<longleftrightarrow>
     t \<noteq> [] \<and> (hd t = CHR ''-'' \<or> is_digit (hd t)) \<and> list_all is_number_char t"

text \<open>The values JSON can represent: every number in them is finite and is read back from
  the token written for it, and an object holds each key once (as every JavaScript object
  does).\<close>

fun representable :: "number_text \<Rightarrow> json \<Rightarrow> bool" where
  "representable nt JNull \<longleftrightarrow> True"
| "representable nt (JBool b) \<longleftrightarrow> True"
| "representable nt (JNum x) \<longleftrightarrow>
     (case x of
        Finite d \<Rightarrow>
          number_token (Number_toString nt d)
          \<and> StringToNumber nt (Number_toString nt d) = Some (Finite d)
      | _ \<Rightarrow> False)"
| "representable nt (JStr t) \<longleftrightarrow> True"
| "representable nt (JArr xs) \<longleftrightarrow> list_all (representable nt) xs"
| "representable nt (JObj kvs) \<longleftrightarrow>
     distinct (map fst kvs) \<and> list_all (\<lambda>kv. representable nt (snd kv)) kvs"

text \<open>The characters a written value can start with, the rests of a text that end a
  number token, and the text of one member of an object.\<close>

definition value_start :: "char \<Rightarrow> bool" where
  "value_start c \<longleftrightarrow> c \<in> set ''ntf-0123456789\"[{''"

definition ends_token :: "string \<Rightarrow> bool" where
  "ends_token rest \<longleftrightarrow> (case rest of [] \<Rightarrow> True | c # cs \<Rightarrow> \<not> is_number_char c)"

definition member_text :: "number_text \<Rightarrow> string \<times> json \<Rightarrow> string" where
  "member_text nt kv = quote (fst kv) @ CHR '':'' # stringify_json nt (snd kv)"

text \<open>The events after which the hook still reports on the same call: all but a new
  \<^verbatim>\<open>generateModel\<close> and \<^verbatim>\<open>resetError\<close>.\<close>

fun keeps_current :: "event \<Rightarrow> bool" where
  "keeps_current (Generate p) \<longleftrightarrow> False"
| "keeps_current ResetError \<longleftrightarrow> False"
| "keeps_current e \<longleftrightarrow> True"

text \<open>The \<^verbatim>\<open>history\<close> member of what a render returns, if it returns.\<close>

definition exposed_history :: "hook_state \<Rightarrow> js_exception + json list" where
  "exposed_history s =
     (case useModelGenerator s of Inl e \<Rightarrow> Inl e | Inr r \<Rightarrow> Inr (returned_history r))"

text \<open>The events that write the query data: \<^verbatim>\<open>clearHistory\<close>, and a successful reply to
  a call in flight. A run without such events.\<close>

fun rewrites_history :: "event \<Rightarrow> hook_state \<Rightarrow> bool" where
  "rewrites_history ClearHistory s \<longleftrightarrow> True"
| "rewrites_history (Reply n reply uuid now) s \<longleftrightarrow>
     (case inflight s n of
        None \<Rightarrow> False
      | Some p \<Rightarrow> (case mutationFn_result p reply of Inl e \<Rightarrow> False | Inr result \<Rightarrow> True))"
| "rewrites_history e s \<longleftrightarrow> False"

fun no_rewrite :: "runtime \<Rightarrow> event list \<Rightarrow> hook_state \<Rightarrow> bool" where
  "no_rewrite rt [] s \<longleftrightarrow> True"
| "no_rewrite rt (e # es) s \<longleftrightarrow> \<not> rewrites_history e s \<and> no_rewrite rt es (step rt e s)"

text \<open>Call A is issued, call B is issued before A resolves, and the reply to B arrives
  while the request of A is still in flight. The calls are numbered in the order of
  issue: A is call \<open>next_call s\<close>, B the one after it.\<close>

definition superseded ::
  "runtime \<Rightarrow> string \<Rightarrow> string \<Rightarrow> client_reply \<Rightarrow> string \<Rightarrow> string \<Rightarrow> hook_state \<Rightarrow> hook_state"
  where
  "superseded rt a b reply_b uuid_b now_b s =
     run rt [Generate a, Generate b, Reply (Suc (next_call s)) reply_b uuid_b now_b] s"

subsection \<open>Concrete surroundings for the examples\<close>

text \<open>A runtime given by a finite table of JSON texts and the values they denote:
  \<open>JSON_parse\<close> reads the table from text to value (any other text is unparseable),
  \<open>JSON_stringify\<close> from value to text (a value outside the table is written as
  \<^verbatim>\<open>null\<close>; no example reads such a text back).\<close>

definition table_runtime :: "(string \<times> json) list \<Rightarrow> runtime" where
  "table_runtime tbl =
     \<lparr>JSON_parse = map_of tbl,
      JSON_stringify =
        (\<lambda>v. case map_of (map (\<lambda>(text, x). (x, text)) tbl) v of
               Some text \<Rightarrow> text
             | None \<Rightarrow> ''null'')\<rparr>"

text \<open>A browser whose storage works and holds the given item.\<close>

definition browser :: "string option \<Rightarrow> Storage option" where
  "browser stored = Some \<lparr>item = stored, getItem_throws = False, setItem_throws = (\<lambda>data. False)\<rparr>"

text \<open>A reply that carries only a \<^verbatim>\<open>url\<close>.\<close>

definition reply_url :: "string \<Rightarrow> client_reply" where
  "reply_url u = Resolves (Some \<lparr>url = Some u, metadata = None, thumbnailUrl = None\<rparr>)"

text \<open>A stored array of 21 elements: nineteen empty objects and two objects with the
  same \<^verbatim>\<open>id\<close>.\<close>

definition stored_example :: string where
  \<open>stored_example =
     ''[{},{},{},{},{},{},{},{},{},{},{},{},{},{},{},{},{},{},{},{"id":"a"},{"id":"a"}]''\<close>

definition parsed_example :: "json list" where
  "parsed_example =
     replicate 19 (JObj []) @ [JObj [(''id'', JStr ''a'')], JObj [(''id'', JStr ''a'')]]"

text \<open>A stored array whose only element is \<^verbatim>\<open>null\<close>.\<close>

definition null_runtime :: runtime where
  "null_runtime = table_runtime [(''[null]'', JArr [JNull])]"

text \<open>An entry as \<^verbatim>\<open>onSuccess\<close> builds it, and the text of the array that holds it.\<close>

definition entry_example :: json where
  "entry_example =
     JObj [(''id'', JStr ''id-1''), (''prompt'', JStr ''biplane wing''),
           (''url'', JStr ''a.glb''),
           (''metadata'', JObj [(''tags'', JArr [JStr ''wing'', JNull, JBool True])]),
           (''createdAt'', JStr ''t1'')]"

definition entry_example_text :: string where
  \<open>entry_example_text =
     ''[{"id":"id-1","prompt":"biplane wing","url":"a.glb","metadata":{"tags":["wing",null,true]},"createdAt":"t1"}]''\<close>

text \<open>Number conversions for examples that hold no finite number.\<close>

definition no_number_text :: number_text where
  "no_number_text = \<lparr>Number_toString = (\<lambda>d. ''0''), StringToNumber = (\<lambda>t. None)\<rparr>"

text \<open>A reply whose metadata holds an infinite number (what \<^verbatim>\<open>JSON.parse\<close> makes of
  \<^verbatim>\<open>1e999\<close>), the record the hook makes of it, and the same record with \<^verbatim>\<open>null\<close> in
  place of the number.\<close>

definition reply_infinite :: client_reply where
  "reply_infinite =
     Resolves (Some \<lparr>url = Some ''a.glb'',
                     metadata = Some [(''lift'', JNum PosInfinity)],
                     thumbnailUrl = None\<rparr>)"

definition record_infinite :: json where
  "record_infinite =
     JObj [(''id'', JStr ''id-1''), (''prompt'', JStr ''biplane wing''),
           (''url'', JStr ''a.glb''), (''metadata'', JObj [(''lift'', JNum PosInfinity)]),
           (''createdAt'', JStr ''t1'')]"

definition record_nulled :: json where
  "record_nulled =
     JObj [(''id'', JStr ''id-1''), (''prompt'', JStr ''biplane wing''),
           (''url'', JStr ''a.glb''), (''metadata'', JObj [(''lift'', JNull)]),
           (''createdAt'', JStr ''t1'')]"

text \<open>Two records with different ids, and the text of the array that holds them.\<close>

definition two_records :: "json list" where
  "two_records =
     [JObj [(''id'', JStr ''b''), (''prompt'', JStr ''wing''), (''url'', JStr ''b.glb''),
            (''createdAt'', JStr ''t2'')],
      JObj [(''id'', JStr ''a''), (''prompt'', JStr ''tail''), (''url'', JStr ''a.glb''),
            (''createdAt'', JStr ''t1'')]]"

definition two_records_text :: string where
  \<open>two_records_text =
     ''[{"id":"b","prompt":"wing","url":"b.glb","createdAt":"t2"},{"id":"a","prompt":"tail","url":"a.glb","createdAt":"t1"}]''\<close>

text \<open>A stored array of 20 records whose ids are the letters a to t.\<close>

definition twenty_records :: "json list" where
  "twenty_records = map (\<lambda>c. JObj [(''id'', JStr [c])]) ''abcdefghijklmnopqrst''"

definition twenty_records_text :: string where
  \<open>twenty_records_text =
     ''[{"id":"a"},{"id":"b"},{"id":"c"},{"id":"d"},{"id":"e"},{"id":"f"},{"id":"g"},{"id":"h"},{"id":"i"},{"id":"j"},{"id":"k"},{"id":"l"},{"id":"m"},{"id":"n"},{"id":"o"},{"id":"p"},{"id":"q"},{"id":"r"},{"id":"s"},{"id":"t"}]''\<close>

text \<open>A stored array of two records with the same id.\<close>

definition duplicate_records :: "json list" where
  "duplicate_records =
     [JObj [(''id'', JStr ''a''), (''url'', JStr ''x.glb'')],
      JObj [(''id'', JStr ''a''), (''url'', JStr ''y.glb'')]]"

definition duplicate_records_text :: string where
  \<open>duplicate_records_text = ''[{"id":"a","url":"x.glb"},{"id":"a","url":"y.glb"}]''\<close>

text \<open>Two overlapping calls: the records of call A (prompt \<^verbatim>\<open>biplane\<close>) and of call B
  (prompt \<^verbatim>\<open>glider\<close>), and a runtime that knows the texts of the two arrays written.\<close>

definition record_a :: json where
  "record_a =
     JObj [(''id'', JStr ''id-a''), (''prompt'', JStr ''biplane''), (''url'', JStr ''a.glb''),
           (''createdAt'', JStr ''t2'')]"

definition record_b :: json where
  "record_b =
     JObj [(''id'', JStr ''id-b''), (''prompt'', JStr ''glider''), (''url'', JStr ''b.glb''),
           (''createdAt'', JStr ''t1'')]"

definition stored_b_text :: string where
  \<open>stored_b_text =
     ''[{"id":"id-b","prompt":"glider","url":"b.glb","createdAt":"t1"}]''\<close>

definition stored_ab_text :: string where
  \<open>stored_ab_text =
     ''[{"id":"id-a","prompt":"biplane","url":"a.glb","createdAt":"t2"},{"id":"id-b","prompt":"glider","url":"b.glb","createdAt":"t1"}]''\<close>

definition overlap_runtime :: runtime where
  "overlap_runtime =
     table_runtime [(stored_b_text, JArr [record_b]), (stored_ab_text, JArr [record_a, record_b])]"

text \<open>A prompt with surrounding blanks, the record the hook makes of it, and a runtime
  that knows the text of the array written.\<close>

definition record_untrimmed :: json where
  "record_untrimmed =
     JObj [(''id'', JStr ''id-1''), (''prompt'', JStr ''  biplane wing  ''),
           (''url'', JStr ''a.glb''), (''createdAt'', JStr ''t1'')]"

definition stored_untrimmed_text :: string where
  \<open>stored_untrimmed_text =
     ''[{"id":"id-1","prompt":"  biplane wing  ","url":"a.glb","createdAt":"t1"}]''\<close>

definition untrimmed_runtime :: runtime where
  "untrimmed_runtime = table_runtime [(stored_untrimmed_text, JArr [record_untrimmed])]"

section \<open>Properties\<close>

text \<open>The defining equations of the model, for evaluating it on concrete inputs.\<close>

lemmas hook_defs =
  mount_def browser_def table_runtime_def reply_url_def readHistory_def readHistory_try_def
  persistHistory_def persistHistory_try_def generateModel_def settle_def onSuccess_def selectModel_def
  clearHistory_def resetError_def mutationFn_request_def mutationFn_result_def entry_def
  property_def trim_def is_ws_def history_def error_def isGenerating_def Let_def

subsection \<open>Trimming\<close>

lemma trim_whitespace_only: "list_all is_ws p \<Longrightarrow> trim p = []"
proof -
  assume "list_all is_ws p"
  then have d: "dropWhile is_ws p = []"
    by (simp add: list_all_iff)
  show ?thesis
    unfolding trim_def d by simp
qed

lemma trim_empty_iff: "trim p = [] \<longleftrightarrow> list_all is_ws p"
proof
  assume "trim p = []"
  then have "dropWhile is_ws (rev (dropWhile is_ws p)) = []"
    by (simp add: trim_def)
  then have all: "\<forall>c \<in> set (dropWhile is_ws p). is_ws c"
    by simp
  have "dropWhile is_ws p = []"
  proof (cases "dropWhile is_ws p")
    case Nil
    then show ?thesis .
  next
    case (Cons c cs)
    then have "\<not> is_ws c"
      using hd_dropWhile [of is_ws p] by simp
    moreover have "is_ws c"
      using all Cons by simp
    ultimately show ?thesis by simp
  qed
  then show "list_all is_ws p"
    by (simp add: list_all_iff)
next
  assume "list_all is_ws p"
  then show "trim p = []"
    by (rule trim_whitespace_only)
qed

subsection \<open>The empty prompt\<close>

text \<open>
  Claim C4. A prompt whose trimmed form is empty (a white-space-only prompt is one) makes
  \<^verbatim>\<open>generateModel\<close> fail with the empty-prompt error before anything is sent to the
  generation service: no text is posted and no request is in flight afterwards; the query
  data, the history, the selection and the storage are what they were.
\<close>

theorem empty_prompt_rejected:
  assumes "trim p = []"
  shows "mutationFn_request p = Inl EmptyPromptError
       \<and> error (generateModel p s) = Some EmptyPromptError
       \<and> posted (generateModel p s) = posted s
       \<and> inflight (generateModel p s) = inflight s
       \<and> query_data (generateModel p s) = query_data s
       \<and> history (generateModel p s) = history s
       \<and> selectedId (generateModel p s) = selectedId s
       \<and> window (generateModel p s) = window s"
  using assms
  by (simp add: mutationFn_request_def generateModel_def error_def history_def Let_def)

theorem empty_prompt_rejected_witness:
  "trim ''   '' = []
   \<and> error (generateModel ''   '' (mount (table_runtime []) (browser None))) = Some EmptyPromptError
   \<and> posted (generateModel ''   '' (mount (table_runtime []) (browser None))) = []
   \<and> history (generateModel ''   '' (mount (table_runtime []) (browser None))) = []
   \<and> selectedId (generateModel ''   '' (mount (table_runtime []) (browser None))) = None
   \<and> window (generateModel ''   '' (mount (table_runtime []) (browser None))) = browser None"
proof -
  have e: "trim ''   '' = []"
    by (simp add: trim_def is_ws_def)
  show ?thesis
    using e empty_prompt_rejected [OF e, of "mount (table_runtime []) (browser None)"]
    by (simp add: mount_def history_def readHistory_def readHistory_try_def browser_def)
qed

subsection \<open>Failing calls\<close>

lemma mutationFn_result_failure:
  "mutationFn_result p Rejects = Inl TransportError"
  "mutationFn_result p (Resolves None) = Inl EmptyResponseError"
  "url d = None \<or> url d = Some [] \<Longrightarrow> mutationFn_result p (Resolves (Some d)) = Inl EmptyResponseError"
  by (auto simp: mutationFn_result_def)

lemma settle_failure:
  assumes "inflight s n = Some p" and "mutationFn_result p reply = Inl e"
  shows "settle rt n reply uuid now s =
           (if current s = Some n
            then s\<lparr>inflight := (inflight s)(n := None), status := Failed e\<rparr>
            else s\<lparr>inflight := (inflight s)(n := None)\<rparr>)"
  using assms by (simp add: settle_def Let_def)

lemma current_step_kept: "keeps_current e \<Longrightarrow> current (step rt e s) = current s"
  by (cases e)
    (simp_all add: settle_def onSuccess_def selectModel_def clearHistory_def Let_def
      split: option.splits sum.splits)

lemma current_run_kept: "list_all keeps_current es \<Longrightarrow> current (run rt es s) = current s"
  by (induction es arbitrary: s) (simp_all add: current_step_kept)

text \<open>
  Claim C5, as the code has it. A \<^verbatim>\<open>generateModel\<close> call whose request is in flight
  fails when \<^verbatim>\<open>axios.post\<close> rejects (the transport error) or when the reply has no data,
  no \<^verbatim>\<open>url\<close> or an empty one (the empty-response error). In every such case the query
  data, the history, the selection and the storage are what they were before. The
  \<^verbatim>\<open>error\<close> the hook reports becomes that error, and \<^verbatim>\<open>isGenerating\<close> false, when the
  call is still the one the hook reports on, that is, when neither a later
  \<^verbatim>\<open>generateModel\<close> nor \<^verbatim>\<open>resetError\<close> has come since it was issued; in particular
  when the reply follows the call directly. When the call is no longer the one the hook
  reports on, the reported status and error stay as they were.
\<close>

theorem failing_call_keeps_history:
  assumes "inflight s n = Some p"
    and "reply = Rejects \<and> e = TransportError
       \<or> reply = Resolves None \<and> e = EmptyResponseError
       \<or> (\<exists>d. reply = Resolves (Some d) \<and> (url d = None \<or> url d = Some []))
           \<and> e = EmptyResponseError"
  shows "mutationFn_result p reply = Inl e
       \<and> query_data (settle rt n reply uuid now s) = query_data s
       \<and> history (settle rt n reply uuid now s) = history s
       \<and> selectedId (settle rt n reply uuid now s) = selectedId s
       \<and> window (settle rt n reply uuid now s) = window s
       \<and> (current s = Some n \<longrightarrow>
            error (settle rt n reply uuid now s) = Some e
          \<and> error (settle rt n reply uuid now s) \<noteq> None
          \<and> \<not> isGenerating (settle rt n reply uuid now s))
       \<and> (s = generateModel p s0 \<and> n = next_call s0 \<longrightarrow>
            error (settle rt n reply uuid now s) = Some e
          \<and> history (settle rt n reply uuid now s) = history s0
          \<and> selectedId (settle rt n reply uuid now s) = selectedId s0)
       \<and> (list_all keeps_current es \<and> s = run rt es (generateModel p s0) \<and> n = next_call s0 \<longrightarrow>
            error (settle rt n reply uuid now s) = Some e)
       \<and> (current s \<noteq> Some n \<longrightarrow>
            status (settle rt n reply uuid now s) = status s
          \<and> error (settle rt n reply uuid now s) = error s)"
proof -
  have r: "mutationFn_result p reply = Inl e"
    using assms(2) by (auto simp: mutationFn_result_failure)
  have a: "query_data (settle rt n reply uuid now s) = query_data s
       \<and> history (settle rt n reply uuid now s) = history s
       \<and> selectedId (settle rt n reply uuid now s) = selectedId s
       \<and> window (settle rt n reply uuid now s) = window s"
    by (simp add: settle_failure [OF assms(1) r] history_def)
  have b: "error (settle rt n reply uuid now s) = Some e
       \<and> error (settle rt n reply uuid now s) \<noteq> None
       \<and> \<not> isGenerating (settle rt n reply uuid now s)"
    if "current s = Some n"
    using that by (simp add: settle_failure [OF assms(1) r] error_def isGenerating_def)
  have c: "error (settle rt n reply uuid now s) = Some e
       \<and> history (settle rt n reply uuid now s) = history s0
       \<and> selectedId (settle rt n reply uuid now s) = selectedId s0"
    if "s = generateModel p s0" and "n = next_call s0"
  proof -
    have "current s = Some n"
      using that by (simp add: generateModel_def Let_def split: sum.splits)
    moreover have "history s = history s0" and "selectedId s = selectedId s0"
      using that by (simp_all add: generateModel_def history_def Let_def split: sum.splits)
    ultimately show ?thesis
      using a b by simp
  qed
  have d: "status (settle rt n reply uuid now s) = status s
       \<and> error (settle rt n reply uuid now s) = error s"
    if "current s \<noteq> Some n"
    using that by (simp add: settle_failure [OF assms(1) r] error_def)
  have f: "error (settle rt n reply uuid now s) = Some e"
    if "list_all keeps_current es" and "s = run rt es (generateModel p s0)"
      and "n = next_call s0"
  proof -
    have "current (generateModel p s0) = Some n"
      using that(3) by (simp add: generateModel_def Let_def split: sum.splits)
    then have "current s = Some n"
      using that(1,2) by (simp add: current_run_kept)
    then show ?thesis
      using b by simp
  qed
  from r a b c d f show ?thesis by blast
qed

theorem failing_call_keeps_history_witness:
  "inflight (generateModel ''biplane wing'' (mount (table_runtime []) (browser None))) 0
     = Some ''biplane wing''
   \<and> current (generateModel ''biplane wing'' (mount (table_runtime []) (browser None))) = Some 0
   \<and> mutationFn_result ''biplane wing''
        (Resolves (Some \<lparr>url = None, metadata = None, thumbnailUrl = None\<rparr>))
       = Inl EmptyResponseError
   \<and> history (settle (table_runtime []) 0
        (Resolves (Some \<lparr>url = None, metadata = None, thumbnailUrl = None\<rparr>)) ''id-1'' ''t1''
        (generateModel ''biplane wing'' (mount (table_runtime []) (browser None)))) = []
   \<and> selectedId (settle (table_runtime []) 0
        (Resolves (Some \<lparr>url = None, metadata = None, thumbnailUrl = None\<rparr>)) ''id-1'' ''t1''
        (generateModel ''biplane wing'' (mount (table_runtime []) (browser None)))) = None
   \<and> error (settle (table_runtime []) 0
        (Resolves (Some \<lparr>url = None, metadata = None, thumbnailUrl = None\<rparr>)) ''id-1'' ''t1''
        (generateModel ''biplane wing'' (mount (table_runtime []) (browser None))))
       = Some EmptyResponseError
   \<and> next_call (mount (table_runtime []) (browser None)) = 0"
proof -
  let ?s = "generateModel ''biplane wing'' (mount (table_runtime []) (browser None))"
  let ?r = "Resolves (Some \<lparr>url = None, metadata = None, thumbnailUrl = None\<rparr>)"
  have t: "trim ''biplane wing'' = ''biplane wing''"
    by (simp add: trim_def is_ws_def)
  have i: "inflight ?s 0 = Some ''biplane wing''"
    by (simp add: generateModel_def mutationFn_request_def t mount_def Let_def)
  have c: "current ?s = Some 0"
    by (simp add: generateModel_def mutationFn_request_def t mount_def Let_def)
  have h: "history ?s = [] \<and> selectedId ?s = None"
    by (simp add: generateModel_def mutationFn_request_def t mount_def Let_def history_def
        readHistory_def readHistory_try_def browser_def)
  have d: "?r = Rejects \<and> EmptyResponseError = TransportError
       \<or> ?r = Resolves None \<and> EmptyResponseError = EmptyResponseError
       \<or> (\<exists>d. ?r = Resolves (Some d) \<and> (url d = None \<or> url d = Some []))
           \<and> EmptyResponseError = EmptyResponseError"
    by simp
  have n: "next_call (mount (table_runtime []) (browser None)) = 0"
    by (simp add: mount_def)
  show ?thesis
    using failing_call_keeps_history [OF i d, where rt = "table_runtime []"
        and uuid = "''id-1''" and now = "''t1''"
        and ?s0.0 = "mount (table_runtime []) (browser None)" and es = "[]"] i c h n
    by simp
qed

text \<open>The claim as the specification states it fails for a call the hook no longer
  reports on: when a later call has been issued, or the error state has been reset, the
  rejected request leaves \<^verbatim>\<open>error\<close> at \<^verbatim>\<open>null\<close>.\<close>

theorem failing_call_error_stays_null:
  "error (run (table_runtime [])
      [Generate ''biplane'', Generate ''glider'', Reply 0 Rejects ''id-1'' ''t1'']
      (mount (table_runtime []) (browser None))) = None
   \<and> error (run (table_runtime [])
        [Generate ''biplane'', ResetError, Reply 0 Rejects ''id-1'' ''t1'']
        (mount (table_runtime []) (browser None))) = None
   \<and> inflight (run (table_runtime []) [Generate ''biplane'', Generate ''glider'']
        (mount (table_runtime []) (browser None))) 0 = Some ''biplane''
   \<and> inflight (run (table_runtime []) [Generate ''biplane'', ResetError]
        (mount (table_runtime []) (browser None))) 0 = Some ''biplane''
   \<and> mutationFn_result ''biplane'' Rejects = Inl TransportError"
  by (simp add: hook_defs)

subsection \<open>Reading and writing the storage\<close>

lemma readHistory_array:
  assumes "\<not> getItem_throws st" and "item st = Some d" and "d \<noteq> []"
    and "JSON_parse rt d = Some (JArr xs)"
  shows "readHistory rt (Some st) = xs"
  using assms by (simp add: readHistory_def readHistory_try_def)

lemma history_mount: "history (mount rt w) = readHistory rt w"
  by (simp add: history_def mount_def)

text \<open>
  Claim C7. \<^verbatim>\<open>readHistory\<close> gives the empty history, as an ordinary result, whenever
  the stored item is absent, is the empty string, does not parse, or parses to something
  that is not an array; likewise when there is no \<^verbatim>\<open>window\<close> or reading the storage
  throws. The \<^verbatim>\<open>catch\<close> turns every exception of the \<^verbatim>\<open>try\<close> block into the empty
  history, so nothing is raised to the caller, and the hook mounts with an empty history.
\<close>

theorem readHistory_malformed_empty:
  assumes "w = None
     \<or> (\<exists>st. w = Some st \<and>
          (getItem_throws st
           \<or> item st = None
           \<or> item st = Some []
           \<or> (\<exists>d. item st = Some d \<and>
                 (JSON_parse rt d = None
                  \<or> (\<exists>v. JSON_parse rt d = Some v \<and> (\<forall>xs. v \<noteq> JArr xs))))))"
  shows "readHistory rt w = [] \<and> history (mount rt w) = []"
proof -
  have "readHistory rt w = []"
  proof (cases w)
    case None
    then show ?thesis by (simp add: readHistory_def)
  next
    case (Some st)
    with assms have c: "getItem_throws st \<or> item st = None \<or> item st = Some []
        \<or> (\<exists>d. item st = Some d \<and>
              (JSON_parse rt d = None
               \<or> (\<exists>v. JSON_parse rt d = Some v \<and> (\<forall>xs. v \<noteq> JArr xs))))"
      by simp
    have "case readHistory_try rt st of Inl e \<Rightarrow> True | Inr h \<Rightarrow> h = []"
      using c by (auto simp: readHistory_try_def split: json.splits)
    then show ?thesis
      using Some by (simp add: readHistory_def split: sum.splits)
  qed
  then show ?thesis
    by (simp add: history_mount)
qed

theorem readHistory_malformed_empty_witness:
  \<open>JSON_parse (table_runtime [(''{"a":null}'', JObj [(''a'', JNull)])]) ''{"a":null}''
     = Some (JObj [(''a'', JNull)])
   \<and> readHistory (table_runtime [(''{"a":null}'', JObj [(''a'', JNull)])])
        (browser (Some ''{"a":null}'')) = []
   \<and> history (mount (table_runtime [(''{"a":null}'', JObj [(''a'', JNull)])])
        (browser (Some ''{"a":null}''))) = []\<close>
proof -
  let ?rt = \<open>table_runtime [(''{"a":null}'', JObj [(''a'', JNull)])]\<close>
  let ?st = \<open>\<lparr>item = Some ''{"a":null}'', getItem_throws = False,
               setItem_throws = (\<lambda>data. False)\<rparr>\<close>
  have p: \<open>JSON_parse ?rt ''{"a":null}'' = Some (JObj [(''a'', JNull)])\<close>
    by (simp add: table_runtime_def)
  have c: \<open>Some ?st = None
     \<or> (\<exists>st. Some ?st = Some st \<and>
          (getItem_throws st
           \<or> item st = None
           \<or> item st = Some []
           \<or> (\<exists>d. item st = Some d \<and>
                 (JSON_parse ?rt d = None
                  \<or> (\<exists>v. JSON_parse ?rt d = Some v \<and> (\<forall>xs. v \<noteq> JArr xs))))))\<close>
    using p by simp
  show ?thesis
    using readHistory_malformed_empty [OF c] p by (simp add: browser_def)
qed

subsection \<open>The selected model\<close>

lemma has_string_id_prop:
  assumes "has_string_id x"
  obtains i where "get_prop x ''id'' = Inr (Some (JStr i))" and "x \<noteq> JNull"
  using assms by (cases x) (auto split: option.splits json.splits)

lemma find_selected_none:
  assumes "\<forall>x \<in> set h. has_string_id x"
  shows "find_selected h None = Inr None"
  using assms
proof (induction h)
  case Nil
  then show ?case by simp
next
  case (Cons x h)
  then obtain i where "get_prop x ''id'' = Inr (Some (JStr i))"
    by (auto elim: has_string_id_prop)
  with Cons show ?case
    by (simp add: strict_eq_def)
qed

lemma find_selected_some:
  assumes "\<forall>x \<in> set h. has_string_id x"
  shows "find_selected h (Some i) =
           Inr (List.find (\<lambda>x. get_prop x ''id'' = Inr (Some (JStr i))) h)"
  using assms
proof (induction h)
  case Nil
  then show ?case by simp
next
  case (Cons x h)
  then obtain j where "get_prop x ''id'' = Inr (Some (JStr j))"
    by (auto elim: has_string_id_prop)
  with Cons show ?case
    by (simp add: strict_eq_def)
qed

lemma selectedModel_models:
  assumes "\<forall>x \<in> set (history s). has_string_id x"
  shows "selectedModel s = Inr (spec_selectedModel (history s) (selectedId s))"
proof -
  have head: "\<not> nullish (newest (history s)) \<or> newest (history s) = None"
    using assms
    by (cases "history s") (auto simp: newest_def nullish_def elim: has_string_id_prop)
  show ?thesis
  proof (cases "selectedId s")
    case None
    then show ?thesis
      using head find_selected_none [OF assms]
      by (auto simp: selectedModel_def spec_selectedModel_def nullish_def newest_def Let_def)
  next
    case (Some i)
    let ?f = "List.find (\<lambda>x. get_prop x ''id'' = Inr (Some (JStr i))) (history s)"
    have f: "find_selected (history s) (selectedId s) = Inr ?f"
      using Some find_selected_some [OF assms] by simp
    show ?thesis
    proof (cases ?f)
      case None
      then show ?thesis
        using head f Some
        by (auto simp: selectedModel_def spec_selectedModel_def nullish_def newest_def Let_def)
    next
      case found: (Some x)
      then have "x \<in> set (history s)"
        by (auto simp: find_Some_iff)
      then have "x \<noteq> JNull"
        using assms by (auto elim: has_string_id_prop)
      then show ?thesis
        using f Some found
        by (simp add: selectedModel_def spec_selectedModel_def nullish_def)
    qed
  qed
qed

lemma history_clearHistory: "history (clearHistory rt s) = []"
  by (simp add: clearHistory_def history_def)

text \<open>
  Claim C8. For a history of models (objects with a string \<^verbatim>\<open>id\<close>) and any selected
  id, \<^verbatim>\<open>selectedModel\<close> is the first element whose id is the selected one when there is
  one, otherwise the newest element, otherwise none. After \<^verbatim>\<open>clearHistory\<close> it is none;
  after selecting an id that no element has it is the newest element (none for the empty
  history).
\<close>

theorem selectedModel_fallback:
  assumes "\<forall>x \<in> set (history s). has_string_id x"
  shows "selectedModel s = Inr (spec_selectedModel (history s) (selectedId s))
       \<and> selectedModel (clearHistory rt s) = Inr None
       \<and> (Inr (Some (JStr i)) \<notin> set (ids (history s)) \<longrightarrow>
            selectedModel (selectModel i s) = Inr (newest (history s)))"
proof -
  have a: "selectedModel s = Inr (spec_selectedModel (history s) (selectedId s))"
    using assms by (rule selectedModel_models)
  have b: "selectedModel (clearHistory rt s) = Inr None"
    by (simp add: selectedModel_def history_clearHistory nullish_def Let_def)
  have c: "selectedModel (selectModel i s) = Inr (newest (history s))"
    if "Inr (Some (JStr i)) \<notin> set (ids (history s))"
  proof -
    have h: "history (selectModel i s) = history s"
      by (simp add: selectModel_def history_def)
    have "List.find (\<lambda>x. get_prop x ''id'' = Inr (Some (JStr i))) (history s) = None"
      using that by (force simp: find_None_iff ids_def image_iff)
    then show ?thesis
      using selectedModel_models [of "selectModel i s"] assms h
      by (simp add: spec_selectedModel_def selectModel_def)
  qed
  from a b c show ?thesis by blast
qed

theorem selectedModel_fallback_witness:
  "list_all has_string_id (history (selectModel ''a''
        (mount (table_runtime [(two_records_text, JArr two_records)])
           (browser (Some two_records_text)))))
   \<and> selectedModel (selectModel ''a''
        (mount (table_runtime [(two_records_text, JArr two_records)])
           (browser (Some two_records_text))))
       = Inr (Some (two_records ! 1))
   \<and> Inr (Some (JStr ''zz'')) \<notin> set (ids two_records)
   \<and> selectedModel (selectModel ''zz'' (selectModel ''a''
        (mount (table_runtime [(two_records_text, JArr two_records)])
           (browser (Some two_records_text)))))
       = Inr (Some (two_records ! 0))
   \<and> selectedModel (clearHistory (table_runtime [(two_records_text, JArr two_records)])
        (selectModel ''a''
          (mount (table_runtime [(two_records_text, JArr two_records)])
             (browser (Some two_records_text)))))
       = Inr None"
proof -
  let ?rt = "table_runtime [(two_records_text, JArr two_records)]"
  let ?s = "selectModel ''a'' (mount ?rt (browser (Some two_records_text)))"
  have n: "two_records_text \<noteq> []"
    by (simp add: two_records_text_def)
  have p: "JSON_parse ?rt two_records_text = Some (JArr two_records)"
    by (simp add: table_runtime_def)
  have h: "history ?s = two_records"
    using n p
    by (simp add: selectModel_def history_def mount_def browser_def readHistory_def
        readHistory_try_def)
  have sel: "selectedId ?s = Some ''a''"
    by (simp add: selectModel_def)
  have m: "\<forall>x \<in> set (history ?s). has_string_id x"
    unfolding h by (simp add: two_records_def)
  have z: "Inr (Some (JStr ''zz'')) \<notin> set (ids two_records)"
    by (simp add: ids_def two_records_def)
  have v: "spec_selectedModel two_records (Some ''a'') = Some (two_records ! 1)"
    by (simp add: spec_selectedModel_def two_records_def)
  have w: "newest two_records = Some (two_records ! 0)"
    by (simp add: newest_def two_records_def)
  show ?thesis
    using selectedModel_fallback [OF m, of ?rt "''zz''"] m z
    by (simp add: h sel v w list_all_iff)
qed

subsection \<open>The cap of 20\<close>

lemma get_prop_entry_id: "get_prop (entry uuid now result p) ''id'' = Inr (Some (JStr uuid))"
  by (simp add: entry_def)

lemma history_onSuccess:
  "history (onSuccess rt uuid now result p s) = take 20 (entry uuid now result p # history s)"
  by (simp add: onSuccess_def history_def Let_def)

lemma history_generateModel: "history (generateModel p s) = history s"
  by (simp add: generateModel_def history_def Let_def split: sum.splits)

lemma history_selectModel: "history (selectModel i s) = history s"
  by (simp add: selectModel_def history_def)

lemma history_resetError: "history (resetError s) = history s"
  by (simp add: resetError_def history_def)

text \<open>The history after the reply to a call: unchanged unless the call is in flight and
  its reply is a success, in which case \<^verbatim>\<open>onSuccess\<close> has run.\<close>

lemma history_settle:
  "history (settle rt n reply uuid now s) =
     (case inflight s n of
        None \<Rightarrow> history s
      | Some p \<Rightarrow>
          (case mutationFn_result p reply of
             Inl e \<Rightarrow> history s
           | Inr result \<Rightarrow> take 20 (entry uuid now result p # history s)))"
  by (simp add: settle_def onSuccess_def history_def Let_def split: option.splits sum.splits)

lemma length_history_step:
  "length (history s) \<le> 20 \<Longrightarrow> length (history (step rt e s)) \<le> 20"
  by (cases e)
    (simp_all add: history_generateModel history_settle history_selectModel
      history_clearHistory history_resetError split: option.splits sum.splits)

lemma length_history_run:
  "length (history s) \<le> 20 \<Longrightarrow> length (history (run rt es s)) \<le> 20"
proof (induction es arbitrary: s)
  case Nil
  then show ?case by simp
next
  case (Cons e es)
  from Cons.prems have "length (history (step rt e s)) \<le> 20"
    by (rule length_history_step)
  then show ?case
    by (simp add: Cons.IH)
qed

lemma oldest_id_evicted:
  assumes "h \<noteq> []" and "distinct (ids h)" and "get_prop e ''id'' \<notin> set (ids h)"
  shows "get_prop (last h) ''id'' \<notin> set (ids (e # butlast h))"
proof -
  have "ids (butlast h @ [last h]) = ids (butlast h) @ [get_prop (last h) ''id'']"
    by (simp add: ids_def)
  then have split: "ids h = ids (butlast h) @ [get_prop (last h) ''id'']"
    using assms(1) by simp
  have "get_prop (last h) ''id'' \<notin> set (ids (butlast h))"
    using assms(2) by (simp add: split)
  moreover have "get_prop (last h) ''id'' \<noteq> get_prop e ''id''"
    using assms(3) by (auto simp: split)
  ultimately show ?thesis
    by (simp add: ids_def)
qed

text \<open>
  Claim C3. Every successful generation leaves at most 20 elements in the history, and a
  history of at most 20 elements never grows beyond 20, whatever sequence of generations
  and other operations follows. When the history holds 20 elements, a successful
  generation puts the new record in front and drops the last (oldest) element; with
  pairwise different ids and a new id, no record with the id of the dropped one remains.
\<close>

theorem history_cap:
  "length (history (onSuccess rt uuid now result p s)) \<le> 20
   \<and> (length (history s) \<le> 20 \<longrightarrow> length (history (run rt es s)) \<le> 20)
   \<and> (length (history s) = 20 \<longrightarrow>
        history (onSuccess rt uuid now result p s)
          = entry uuid now result p # butlast (history s)
      \<and> (distinct (ids (history s)) \<and> Inr (Some (JStr uuid)) \<notin> set (ids (history s)) \<longrightarrow>
           get_prop (last (history s)) ''id''
             \<notin> set (ids (history (onSuccess rt uuid now result p s)))))"
proof -
  have a: "length (history (onSuccess rt uuid now result p s)) \<le> 20"
    by (simp add: history_onSuccess)
  have b: "length (history s) \<le> 20 \<longrightarrow> length (history (run rt es s)) \<le> 20"
    by (simp add: length_history_run)
  have c: "history (onSuccess rt uuid now result p s)
             = entry uuid now result p # butlast (history s)"
    if "length (history s) = 20"
    using that by (simp add: history_onSuccess butlast_conv_take)
  have d: "get_prop (last (history s)) ''id''
             \<notin> set (ids (history (onSuccess rt uuid now result p s)))"
    if "length (history s) = 20" and "distinct (ids (history s))"
      and "Inr (Some (JStr uuid)) \<notin> set (ids (history s))"
  proof -
    from that(1) have "history s \<noteq> []" by auto
    then show ?thesis
      using oldest_id_evicted [of "history s" "entry uuid now result p"] that
      by (simp add: c get_prop_entry_id)
  qed
  from a b c d show ?thesis by blast
qed

theorem history_cap_witness:
  "length (history (mount (table_runtime [(twenty_records_text, JArr twenty_records)])
      (browser (Some twenty_records_text)))) = 20
   \<and> distinct (ids (history (mount (table_runtime [(twenty_records_text, JArr twenty_records)])
        (browser (Some twenty_records_text)))))
   \<and> Inr (Some (JStr ''id-1''))
       \<notin> set (ids (history (mount (table_runtime [(twenty_records_text, JArr twenty_records)])
            (browser (Some twenty_records_text)))))
   \<and> history (onSuccess (table_runtime [(twenty_records_text, JArr twenty_records)])
        ''id-1'' ''t1''
        \<lparr>url = Some ''a.glb'', metadata = None, thumbnailUrl = None, prompt = ''wing''\<rparr> ''wing''
        (mount (table_runtime [(twenty_records_text, JArr twenty_records)])
           (browser (Some twenty_records_text))))
       = entry ''id-1'' ''t1''
           \<lparr>url = Some ''a.glb'', metadata = None, thumbnailUrl = None, prompt = ''wing''\<rparr> ''wing''
         # butlast twenty_records
   \<and> last twenty_records = JObj [(''id'', JStr ''t'')]
   \<and> Inr (Some (JStr ''t''))
       \<notin> set (ids (history (onSuccess (table_runtime [(twenty_records_text, JArr twenty_records)])
            ''id-1'' ''t1''
            \<lparr>url = Some ''a.glb'', metadata = None, thumbnailUrl = None, prompt = ''wing''\<rparr>
            ''wing''
            (mount (table_runtime [(twenty_records_text, JArr twenty_records)])
               (browser (Some twenty_records_text))))))
   \<and> length (history (run (table_runtime [(twenty_records_text, JArr twenty_records)])
        [Generate ''wing'', Reply 0 (reply_url ''a.glb'') ''id-1'' ''t1'']
        (mount (table_runtime [(twenty_records_text, JArr twenty_records)])
           (browser (Some twenty_records_text))))) \<le> 20"
proof -
  let ?rt = "table_runtime [(twenty_records_text, JArr twenty_records)]"
  let ?s = "mount ?rt (browser (Some twenty_records_text))"
  have n: "twenty_records_text \<noteq> []"
    by (simp add: twenty_records_text_def)
  have p: "JSON_parse ?rt twenty_records_text = Some (JArr twenty_records)"
    by (simp add: table_runtime_def)
  have h: "history ?s = twenty_records"
    using n p
    by (simp add: history_def mount_def browser_def readHistory_def readHistory_try_def)
  have l: "length twenty_records = 20"
    by (simp add: twenty_records_def)
  have d: "distinct (ids twenty_records)"
    by (simp add: twenty_records_def ids_def)
  have f: "Inr (Some (JStr ''id-1'')) \<notin> set (ids twenty_records)"
    by (simp add: twenty_records_def ids_def)
  have t: "last twenty_records = JObj [(''id'', JStr ''t'')]"
    by (simp add: twenty_records_def)
  have t': "get_prop (last twenty_records) ''id'' = Inr (Some (JStr ''t''))"
    by (simp add: t)
  note cap = history_cap [of ?rt "''id-1''" "''t1''"
      "\<lparr>url = Some ''a.glb'', metadata = None, thumbnailUrl = None, prompt = ''wing''\<rparr>"
      "''wing''" ?s
      "[Generate ''wing'', Reply 0 (reply_url ''a.glb'') ''id-1'' ''t1'']"]
  have l': "length twenty_records \<le> 20"
    by (simp add: l)
  show ?thesis
    using cap l l' d f t unfolding h t' by blast
qed

subsection \<open>Ids in the history\<close>

lemma distinct_ids_prepend:
  assumes "distinct (ids h)" and "get_prop e ''id'' \<notin> set (ids h)"
  shows "distinct (ids (take 20 (e # h)))"
proof -
  have "distinct (ids (e # h))"
    using assms by (simp add: ids_def)
  then have "distinct (take 20 (ids (e # h)))"
    by (rule distinct_take)
  then show ?thesis
    by (simp only: ids_def take_map)
qed

lemma distinct_ids_step:
  assumes "distinct (ids (history s))" and "event_id_fresh e s"
  shows "distinct (ids (history (step rt e s)))"
proof (cases e)
  case (Generate p)
  then show ?thesis
    using assms by (simp add: history_generateModel)
next
  case (Reply n reply uuid now)
  show ?thesis
  proof (cases "inflight s n")
    case None
    then show ?thesis
      using assms(1) Reply by (simp add: history_settle)
  next
    case (Some p)
    show ?thesis
    proof (cases "mutationFn_result p reply")
      case (Inl e)
      then show ?thesis
        using assms(1) Reply Some by (simp add: history_settle)
    next
      case (Inr result)
      then have "get_prop (entry uuid now result p) ''id'' \<notin> set (ids (history s))"
        using assms(2) Reply Some by (simp add: get_prop_entry_id)
      then have "distinct (ids (take 20 (entry uuid now result p # history s)))"
        using assms(1) by (intro distinct_ids_prepend)
      then show ?thesis
        using Reply Some Inr by (simp add: history_settle)
    qed
  qed
next
  case (SelectModel i)
  then show ?thesis
    using assms by (simp add: history_selectModel)
next
  case ClearHistory
  then show ?thesis
    by (simp add: history_clearHistory ids_def)
next
  case ResetError
  then show ?thesis
    using assms by (simp add: history_resetError)
qed

lemma distinct_ids_run:
  assumes "distinct (ids (history s))" and "fresh_ids rt es s"
  shows "distinct (ids (history (run rt es s)))"
  using assms
proof (induction es arbitrary: s)
  case Nil
  then show ?case by simp
next
  case (Cons e es)
  from Cons.prems have "distinct (ids (history (step rt e s)))"
    by (simp add: distinct_ids_step)
  moreover from Cons.prems have "fresh_ids rt es (step rt e s)"
    by simp
  ultimately show ?case
    by (simp add: Cons.IH)
qed

lemma repeated_id_duplicates:
  assumes "inflight s n = Some p" and "mutationFn_result p reply = Inr result"
    and "Inr (Some (JStr uuid)) \<in> set (ids (take 19 (history s)))"
  shows "\<not> distinct (ids (history (settle rt n reply uuid now s)))"
proof -
  have "history (settle rt n reply uuid now s)
          = entry uuid now result p # take 19 (history s)"
    using assms(1,2) by (simp add: history_settle)
  then show ?thesis
    using assms(3) by (simp add: ids_def get_prop_entry_id)
qed

text \<open>
  Claim C9, as the code has it. Nothing in the hook compares ids. Mounting loads the
  stored array as it is, so the ids of the loaded history are pairwise different exactly
  when those of the stored array are. From a history whose elements have pairwise
  different ids, every sequence of generate calls, replies, selections, clears and resets
  in which each successful reply brings an id that no element of the history has at that
  moment leads to a history whose elements have pairwise different ids; a successful
  reply that brings an id one of the first 19 elements has leaves two elements with
  that id.
\<close>

theorem ids_stay_distinct:
  "(\<not> getItem_throws st \<and> item st = Some d \<and> d \<noteq> [] \<and> JSON_parse rt d = Some (JArr xs) \<longrightarrow>
      history (mount rt (Some st)) = xs
    \<and> (distinct (ids (history (mount rt (Some st)))) \<longleftrightarrow> distinct (ids xs)))
   \<and> (distinct (ids (history s)) \<and> fresh_ids rt es s \<longrightarrow>
        distinct (ids (history (run rt es s))))
   \<and> (inflight s n = Some p \<and> mutationFn_result p reply = Inr result
        \<and> Inr (Some (JStr uuid)) \<in> set (ids (take 19 (history s))) \<longrightarrow>
        \<not> distinct (ids (history (settle rt n reply uuid now s))))"
proof -
  have a: "history (mount rt (Some st)) = xs"
    if "\<not> getItem_throws st" and "item st = Some d" and "d \<noteq> []"
      and "JSON_parse rt d = Some (JArr xs)"
    using that by (simp add: history_mount readHistory_array)
  have b: "distinct (ids (history (run rt es s)))"
    if "distinct (ids (history s))" and "fresh_ids rt es s"
    using that by (rule distinct_ids_run)
  have c: "\<not> distinct (ids (history (settle rt n reply uuid now s)))"
    if "inflight s n = Some p" and "mutationFn_result p reply = Inr result"
      and "Inr (Some (JStr uuid)) \<in> set (ids (take 19 (history s)))"
    using that by (rule repeated_id_duplicates)
  from a b c show ?thesis by auto
qed

theorem ids_stay_distinct_witness:
  "\<not> getItem_throws \<lparr>item = Some two_records_text, getItem_throws = False,
                       setItem_throws = (\<lambda>data. False)\<rparr>
   \<and> two_records_text \<noteq> []
   \<and> JSON_parse (table_runtime [(two_records_text, JArr two_records)]) two_records_text
       = Some (JArr two_records)
   \<and> history (mount (table_runtime [(two_records_text, JArr two_records)])
        (browser (Some two_records_text))) = two_records
   \<and> distinct (ids two_records)
   \<and> fresh_ids (table_runtime [(two_records_text, JArr two_records)])
        [Generate ''wing'', Generate ''tail'', Reply 0 Rejects ''a'' ''t3'',
         Reply 1 (reply_url ''c.glb'') ''c'' ''t4'']
        (mount (table_runtime [(two_records_text, JArr two_records)])
           (browser (Some two_records_text)))
   \<and> distinct (ids (history (run (table_runtime [(two_records_text, JArr two_records)])
        [Generate ''wing'', Generate ''tail'', Reply 0 Rejects ''a'' ''t3'',
         Reply 1 (reply_url ''c.glb'') ''c'' ''t4'']
        (mount (table_runtime [(two_records_text, JArr two_records)])
           (browser (Some two_records_text))))))
   \<and> inflight (generateModel ''wing''
        (mount (table_runtime [(two_records_text, JArr two_records)])
           (browser (Some two_records_text)))) 0 = Some ''wing''
   \<and> Inr (Some (JStr ''a'')) \<in> set (ids (take 19 two_records))
   \<and> \<not> distinct (ids (history (settle (table_runtime [(two_records_text, JArr two_records)])
        0 (reply_url ''c.glb'') ''a'' ''t3''
        (generateModel ''wing''
          (mount (table_runtime [(two_records_text, JArr two_records)])
             (browser (Some two_records_text)))))))"
proof -
  let ?rt = "table_runtime [(two_records_text, JArr two_records)]"
  let ?st = "\<lparr>item = Some two_records_text, getItem_throws = False,
              setItem_throws = (\<lambda>data. False)\<rparr>"
  let ?es = "[Generate ''wing'', Generate ''tail'', Reply 0 Rejects ''a'' ''t3'',
              Reply 1 (reply_url ''c.glb'') ''c'' ''t4'']"
  let ?s = "mount ?rt (Some ?st)"
  let ?res = "\<lparr>url = Some ''c.glb'', metadata = None, thumbnailUrl = None, prompt = ''wing''\<rparr>"
  have g: "\<not> getItem_throws ?st" and i: "item ?st = Some two_records_text"
    by simp_all
  have n: "two_records_text \<noteq> []"
    by (simp add: two_records_text_def)
  have p: "JSON_parse ?rt two_records_text = Some (JArr two_records)"
    by (simp add: table_runtime_def)
  have h: "history ?s = two_records"
    using n p by (simp add: history_mount readHistory_array)
  have d: "distinct (ids two_records)"
    by (simp add: ids_def two_records_def)
  have t: "trim ''wing'' = ''wing''" "trim ''tail'' = ''tail''"
    by (simp_all add: trim_def is_ws_def)
  have f: "fresh_ids ?rt ?es ?s"
    by (simp add: hook_defs ids_def two_records_def two_records_text_def)
  have w: "inflight (generateModel ''wing'' ?s) 0 = Some ''wing''"
    by (simp add: generateModel_def mutationFn_request_def t mount_def Let_def)
  have r: "mutationFn_result ''wing'' (reply_url ''c.glb'') = Inr ?res"
    by (simp add: mutationFn_result_def reply_url_def t)
  have m: "Inr (Some (JStr ''a'')) \<in> set (ids (take 19 two_records))"
    by (simp add: ids_def two_records_def)
  have m': "Inr (Some (JStr ''a'')) \<in> set (ids (take 19 (history (generateModel ''wing'' ?s))))"
    using m by (simp add: history_generateModel h)
  have c1: "distinct (ids (history (run ?rt ?es ?s)))"
    using ids_stay_distinct [where st = ?st and d = two_records_text and rt = ?rt
        and xs = two_records and s = ?s and es = ?es] g i n p d f h
    by simp
  have c2: "\<not> distinct (ids (history (settle ?rt 0 (reply_url ''c.glb'') ''a'' ''t3''
        (generateModel ''wing'' ?s))))"
    using ids_stay_distinct [where rt = ?rt and s = "generateModel ''wing'' ?s" and n = 0
        and p = "''wing''" and reply = "reply_url ''c.glb''" and result = ?res
        and uuid = "''a''" and now = "''t3''"] w r m'
    by simp
  show ?thesis
    using g n p h d f c1 w m c2 by (simp add: browser_def)
qed

text \<open>The claim as the specification states it fails in both ways: a stored array with a
  repeated id is loaded unchanged, and two successful replies that bring the same id
  (the clock value of the fallback \<^verbatim>\<open>`${Date.now()}`\<close>, read twice within one
  millisecond) leave two records with that id.\<close>

theorem duplicate_ids_reachable:
  "\<not> distinct (ids (history
        (mount (table_runtime [(duplicate_records_text, JArr duplicate_records)])
           (browser (Some duplicate_records_text)))))
   \<and> ids (history (run (table_runtime [])
        [Generate ''wing'', Generate ''tail'',
         Reply 0 (reply_url ''a.glb'') ''1730000000000'' ''t1'',
         Reply 1 (reply_url ''b.glb'') ''1730000000000'' ''t1'']
        (mount (table_runtime []) (browser None))))
       = [Inr (Some (JStr ''1730000000000'')), Inr (Some (JStr ''1730000000000''))]
   \<and> \<not> distinct (ids (history (run (table_runtime [])
        [Generate ''wing'', Generate ''tail'',
         Reply 0 (reply_url ''a.glb'') ''1730000000000'' ''t1'',
         Reply 1 (reply_url ''b.glb'') ''1730000000000'' ''t1'']
        (mount (table_runtime []) (browser None)))))"
  by (simp add: hook_defs ids_def duplicate_records_def duplicate_records_text_def)

subsection \<open>Overlapping calls\<close>

lemma selectedId_settle:
  "selectedId (settle rt n reply uuid now s) =
     (case inflight s n of
        None \<Rightarrow> selectedId s
      | Some p \<Rightarrow>
          (case mutationFn_result p reply of
             Inl e \<Rightarrow> selectedId s
           | Inr result \<Rightarrow> Some uuid))"
  by (simp add: settle_def onSuccess_def Let_def split: option.splits sum.splits)

lemma window_settle:
  "window (settle rt n reply uuid now s) =
     (case inflight s n of
        None \<Rightarrow> window s
      | Some p \<Rightarrow>
          (case mutationFn_result p reply of
             Inl e \<Rightarrow> window s
           | Inr result \<Rightarrow>
               persistHistory rt (take 20 (entry uuid now result p # history s)) (window s)))"
  by (simp add: settle_def onSuccess_def history_def Let_def split: option.splits sum.splits)

lemma status_settle_not_current:
  "current s \<noteq> Some n \<Longrightarrow> status (settle rt n reply uuid now s) = status s"
  by (simp add: settle_def onSuccess_def Let_def split: option.splits sum.splits)

lemma current_settle: "current (settle rt n reply uuid now s) = current s"
  by (simp add: settle_def onSuccess_def Let_def split: option.splits sum.splits)

lemma inflight_settle_other:
  "m \<noteq> n \<Longrightarrow> inflight (settle rt m reply uuid now s) n = inflight s n"
  by (simp add: settle_def onSuccess_def Let_def split: option.splits sum.splits)

lemma current_generateModel: "current (generateModel p s) = Some (next_call s)"
  by (simp add: generateModel_def Let_def split: sum.splits)

lemma next_call_generateModel: "next_call (generateModel p s) = Suc (next_call s)"
  by (simp add: generateModel_def Let_def split: sum.splits)

lemma inflight_generateModel_new:
  "trim p \<noteq> [] \<Longrightarrow> inflight (generateModel p s) (next_call s) = Some p"
  by (simp add: generateModel_def mutationFn_request_def Let_def)

lemma inflight_generateModel_other:
  "n \<noteq> next_call s \<Longrightarrow> inflight (generateModel p s) n = inflight s n"
  by (simp add: generateModel_def Let_def split: sum.splits)

lemma superseded_state:
  assumes "trim a \<noteq> []"
  shows "inflight (superseded rt a b reply_b uuid_b now_b s) (next_call s) = Some a"
    and "current (superseded rt a b reply_b uuid_b now_b s) = Some (Suc (next_call s))"
proof -
  let ?s1 = "generateModel a s"
  let ?s2 = "generateModel b ?s1"
  have n1: "next_call ?s1 = Suc (next_call s)"
    by (rule next_call_generateModel)
  have "inflight ?s1 (next_call s) = Some a"
    using assms by (rule inflight_generateModel_new)
  then have i2: "inflight ?s2 (next_call s) = Some a"
    by (simp add: inflight_generateModel_other n1)
  have c2: "current ?s2 = Some (Suc (next_call s))"
    by (simp add: current_generateModel n1)
  show "inflight (superseded rt a b reply_b uuid_b now_b s) (next_call s) = Some a"
    by (simp add: superseded_def inflight_settle_other i2)
  show "current (superseded rt a b reply_b uuid_b now_b s) = Some (Suc (next_call s))"
    by (simp add: superseded_def current_settle c2)
qed

text \<open>
  Claim C1, as the code has it. Let call A be issued, call B be issued before A resolves,
  and the reply to A arrive after the reply to B. The reported status and error do not
  change when the reply to A arrives: they reflect call B only. The history and the
  selection do change when A succeeds: \<^verbatim>\<open>onSuccess\<close> runs for A as for any call, the
  record of A is put in front of the history B left (cut to 20), that history is
  written to the storage by \<^verbatim>\<open>persistHistory\<close>, and the selection becomes the id of A.
  When A fails, the history, the selection and the storage stay as B left them.
\<close>

theorem superseded_reply_still_merged:
  assumes "trim a \<noteq> []"
  shows "let sB = superseded rt a b reply_b uuid_b now_b s;
             sA = settle rt (next_call s) reply_a uuid_a now_a sB
         in status sA = status sB
          \<and> error sA = error sB
          \<and> (case mutationFn_result a reply_a of
                Inl e \<Rightarrow>
                  history sA = history sB
                \<and> selectedId sA = selectedId sB
                \<and> window sA = window sB
              | Inr result \<Rightarrow>
                  history sA = take 20 (entry uuid_a now_a result a # history sB)
                \<and> selectedId sA = Some uuid_a
                \<and> window sA
                    = persistHistory rt (take 20 (entry uuid_a now_a result a # history sB))
                        (window sB))"
proof -
  let ?sB = "superseded rt a b reply_b uuid_b now_b s"
  have i: "inflight ?sB (next_call s) = Some a"
    and c: "current ?sB \<noteq> Some (next_call s)"
    using superseded_state [OF assms, of rt b reply_b uuid_b now_b s] by simp_all
  have st: "status (settle rt (next_call s) reply_a uuid_a now_a ?sB) = status ?sB"
    using c by (rule status_settle_not_current)
  show ?thesis
    by (simp add: Let_def st error_def history_settle selectedId_settle window_settle i
        split: sum.splits)
qed

theorem superseded_reply_still_merged_witness:
  "trim ''biplane'' \<noteq> []
   \<and> history (superseded overlap_runtime ''biplane'' ''glider'' (reply_url ''b.glb'')
        ''id-b'' ''t1'' (mount overlap_runtime (browser None))) = [record_b]
   \<and> history (settle overlap_runtime 0 (reply_url ''a.glb'') ''id-a'' ''t2''
        (superseded overlap_runtime ''biplane'' ''glider'' (reply_url ''b.glb'')
           ''id-b'' ''t1'' (mount overlap_runtime (browser None))))
       = [record_a, record_b]
   \<and> selectedId (settle overlap_runtime 0 (reply_url ''a.glb'') ''id-a'' ''t2''
        (superseded overlap_runtime ''biplane'' ''glider'' (reply_url ''b.glb'')
           ''id-b'' ''t1'' (mount overlap_runtime (browser None))))
       = Some ''id-a''
   \<and> window (superseded overlap_runtime ''biplane'' ''glider'' (reply_url ''b.glb'')
        ''id-b'' ''t1'' (mount overlap_runtime (browser None))) = browser (Some stored_b_text)
   \<and> window (settle overlap_runtime 0 (reply_url ''a.glb'') ''id-a'' ''t2''
        (superseded overlap_runtime ''biplane'' ''glider'' (reply_url ''b.glb'')
           ''id-b'' ''t1'' (mount overlap_runtime (browser None))))
       = browser (Some stored_ab_text)
   \<and> status (settle overlap_runtime 0 (reply_url ''a.glb'') ''id-a'' ''t2''
        (superseded overlap_runtime ''biplane'' ''glider'' (reply_url ''b.glb'')
           ''id-b'' ''t1'' (mount overlap_runtime (browser None))))
       = Succeeded"
proof -
  let ?s = "mount overlap_runtime (browser None)"
  let ?sB = "superseded overlap_runtime ''biplane'' ''glider'' (reply_url ''b.glb'')
               ''id-b'' ''t1'' ?s"
  let ?res = "\<lparr>url = Some ''a.glb'', metadata = None, thumbnailUrl = None,
               prompt = ''biplane''\<rparr>"
  have t: "trim ''biplane'' \<noteq> []"
    by (simp add: trim_def is_ws_def)
  have n: "next_call ?s = 0"
    by (simp add: mount_def)
  have r: "mutationFn_result ''biplane'' (reply_url ''a.glb'') = Inr ?res"
    by (simp add: mutationFn_result_def reply_url_def trim_def is_ws_def)
  have e: "entry ''id-a'' ''t2'' ?res ''biplane'' = record_a"
    by (simp add: entry_def property_def record_a_def)
  have hB: "history ?sB = [record_b]"
    by (simp add: superseded_def hook_defs overlap_runtime_def record_b_def)
  have sB: "status ?sB = Succeeded"
    by (simp add: superseded_def hook_defs overlap_runtime_def)
  have wB: "window ?sB = browser (Some stored_b_text)"
    by (simp add: superseded_def hook_defs overlap_runtime_def record_b_def)
  have p: "persistHistory overlap_runtime [record_a, record_b] (browser (Some stored_b_text))
             = browser (Some stored_ab_text)"
    by (simp add: persistHistory_def persistHistory_try_def browser_def overlap_runtime_def
        table_runtime_def record_a_def record_b_def Let_def)
  show ?thesis
    using superseded_reply_still_merged [OF t, of overlap_runtime "''glider''"
        "reply_url ''b.glb''" "''id-b''" "''t1''" ?s "reply_url ''a.glb''" "''id-a''" "''t2''"]
      t
    by (simp add: Let_def n r e hB sB wB p)
qed

text \<open>The claim as the specification states it fails: the reply to the superseded call A,
  arriving after the reply to B, changes the history, the selection and the stored
  history.\<close>

theorem superseded_reply_not_discarded:
  "history (run overlap_runtime
      [Generate ''biplane'', Generate ''glider'',
       Reply 1 (reply_url ''b.glb'') ''id-b'' ''t1'',
       Reply 0 (reply_url ''a.glb'') ''id-a'' ''t2'']
      (mount overlap_runtime (browser None)))
     \<noteq> history (run overlap_runtime
         [Generate ''biplane'', Generate ''glider'',
          Reply 1 (reply_url ''b.glb'') ''id-b'' ''t1'']
         (mount overlap_runtime (browser None)))
   \<and> history (run overlap_runtime
        [Generate ''biplane'', Generate ''glider'',
         Reply 1 (reply_url ''b.glb'') ''id-b'' ''t1'',
         Reply 0 (reply_url ''a.glb'') ''id-a'' ''t2'']
        (mount overlap_runtime (browser None)))
       = [record_a, record_b]
   \<and> selectedId (run overlap_runtime
        [Generate ''biplane'', Generate ''glider'',
         Reply 1 (reply_url ''b.glb'') ''id-b'' ''t1'',
         Reply 0 (reply_url ''a.glb'') ''id-a'' ''t2'']
        (mount overlap_runtime (browser None)))
       = Some ''id-a''
   \<and> window (run overlap_runtime
        [Generate ''biplane'', Generate ''glider'',
         Reply 1 (reply_url ''b.glb'') ''id-b'' ''t1'',
         Reply 0 (reply_url ''a.glb'') ''id-a'' ''t2'']
        (mount overlap_runtime (browser None)))
       = browser (Some stored_ab_text)"
  by (simp add: hook_defs overlap_runtime_def record_a_def record_b_def)

subsection \<open>The prompt of a new record\<close>

text \<open>
  Claim C2, at the prompt \<^verbatim>\<open>"  biplane wing  "\<close> answered with
  \<^verbatim>\<open>{url: "a.glb"}\<close>. The text posted is the trimmed prompt and the result of
  \<^verbatim>\<open>mutationFn\<close> carries the trimmed prompt, but \<^verbatim>\<open>onSuccess\<close> builds the record from
  its second argument, the prompt as it was passed in: the new record, at the head of the
  history and selected, has the url of the reply and the prompt with its blanks.
\<close>

theorem untrimmed_prompt_stored:
  "trim ''  biplane wing  '' = ''biplane wing''
   \<and> posted (run untrimmed_runtime
        [Generate ''  biplane wing  '', Reply 0 (reply_url ''a.glb'') ''id-1'' ''t1'']
        (mount untrimmed_runtime (browser None))) = [''biplane wing'']
   \<and> mutationFn_result ''  biplane wing  '' (reply_url ''a.glb'')
       = Inr \<lparr>url = Some ''a.glb'', metadata = None, thumbnailUrl = None,
               prompt = ''biplane wing''\<rparr>
   \<and> history (run untrimmed_runtime
        [Generate ''  biplane wing  '', Reply 0 (reply_url ''a.glb'') ''id-1'' ''t1'']
        (mount untrimmed_runtime (browser None))) = [record_untrimmed]
   \<and> get_prop record_untrimmed ''prompt'' = Inr (Some (JStr ''  biplane wing  ''))
   \<and> get_prop record_untrimmed ''prompt'' \<noteq> Inr (Some (JStr (trim ''  biplane wing  '')))
   \<and> get_prop record_untrimmed ''url'' = Inr (Some (JStr ''a.glb''))
   \<and> selectedId (run untrimmed_runtime
        [Generate ''  biplane wing  '', Reply 0 (reply_url ''a.glb'') ''id-1'' ''t1'']
        (mount untrimmed_runtime (browser None))) = Some ''id-1''
   \<and> window (run untrimmed_runtime
        [Generate ''  biplane wing  '', Reply 0 (reply_url ''a.glb'') ''id-1'' ''t1'']
        (mount untrimmed_runtime (browser None))) = browser (Some stored_untrimmed_text)"
  by (simp add: hook_defs untrimmed_runtime_def record_untrimmed_def)

subsection \<open>The history loaded at mount\<close>

lemma history_step_kept:
  "\<not> rewrites_history e s \<Longrightarrow> history (step rt e s) = history s"
  by (cases e)
    (simp_all add: history_def generateModel_def settle_def selectModel_def resetError_def
      Let_def split: option.splits sum.splits)

lemma history_run_kept:
  "no_rewrite rt es s \<Longrightarrow> history (run rt es s) = history s"
proof (induction es arbitrary: s)
  case Nil
  then show ?case by simp
next
  case (Cons e es)
  then have "history (run rt es (step rt e s)) = history (step rt e s)"
    by simp
  also have "\<dots> = history s"
    using Cons.prems by (simp add: history_step_kept)
  finally show ?case by simp
qed

lemma find_selected_returns:
  "JNull \<notin> set h \<Longrightarrow> \<exists>found. find_selected h sel = Inr found"
proof (induction h)
  case Nil
  then show ?case by simp
next
  case (Cons x h)
  then obtain v where "get_prop x ''id'' = Inr v"
    by (cases x) auto
  with Cons show ?case
    by auto
qed

lemma exposed_history_returns:
  assumes "JNull \<notin> set (history s)"
  shows "exposed_history s = Inr (history s)"
proof -
  obtain found where "find_selected (history s) (selectedId s) = Inr found"
    using find_selected_returns [OF assms] by blast
  then have "\<exists>model. selectedModel s = Inr model"
    by (simp add: selectedModel_def Let_def)
  then obtain model where "selectedModel s = Inr model"
    by blast
  then show ?thesis
    by (simp add: exposed_history_def useModelGenerator_def)
qed

lemma exposed_history_scan:
  "exposed_history s =
     (case find_selected (history s) (selectedId s) of
        Inl e \<Rightarrow> Inl e
      | Inr found \<Rightarrow> Inr (history s))"
  by (simp add: exposed_history_def useModelGenerator_def selectedModel_def Let_def
      split: sum.splits)

lemma exposed_history_throws:
  assumes "history s = JNull # ys"
  shows "useModelGenerator s = Inl TypeError" and "exposed_history s = Inl TypeError"
proof -
  have "selectedModel s = Inl TypeError"
    using assms by (simp add: selectedModel_def)
  then show "useModelGenerator s = Inl TypeError"
    by (simp add: useModelGenerator_def)
  then show "exposed_history s = Inl TypeError"
    by (simp add: exposed_history_def)
qed

text \<open>
  Claim C10, as the code has it. When the stored string parses to an array,
  \<^verbatim>\<open>readHistory\<close> returns the elements of that array, whatever they are and however
  many, and they are the query data the hook mounts with: nothing is validated,
  de-duplicated or cut to 20. They stay the query data through every sequence of events
  without \<^verbatim>\<open>clearHistory\<close> and without a successful reply; the next successful
  generation replaces them by the new entry followed by them, cut to 20. Over that time
  a render returns them as \<^verbatim>\<open>history\<close> unless the scan for the selected id
  (\<^verbatim>\<open>item.id\<close> on each element, up to the first match) reaches a \<^verbatim>\<open>null\<close> element, in
  which case it throws a \<^verbatim>\<open>TypeError\<close> and returns nothing. So when no element of the
  array is \<^verbatim>\<open>null\<close>, elements without the required fields, repeated ids and more than
  20 entries are exposed as they are; when the first element is \<^verbatim>\<open>null\<close>, the render at
  mount throws.
\<close>

theorem stored_array_loaded_as_is:
  assumes "\<not> getItem_throws st" and "item st = Some d" and "d \<noteq> []"
    and "JSON_parse rt d = Some (JArr xs)"
  shows "readHistory rt (Some st) = xs
       \<and> history (mount rt (Some st)) = xs
       \<and> (no_rewrite rt es (mount rt (Some st)) \<longrightarrow>
            history (run rt es (mount rt (Some st))) = xs
          \<and> history (onSuccess rt uuid now result p (run rt es (mount rt (Some st))))
              = take 20 (entry uuid now result p # xs))
       \<and> (no_rewrite rt es (mount rt (Some st)) \<longrightarrow>
            exposed_history (run rt es (mount rt (Some st)))
              = (case find_selected xs (selectedId (run rt es (mount rt (Some st)))) of
                   Inl e \<Rightarrow> Inl e
                 | Inr found \<Rightarrow> Inr xs))
       \<and> (JNull \<notin> set xs \<and> no_rewrite rt es (mount rt (Some st)) \<longrightarrow>
            exposed_history (run rt es (mount rt (Some st))) = Inr xs)
       \<and> (xs \<noteq> [] \<and> hd xs = JNull \<longrightarrow>
            useModelGenerator (mount rt (Some st)) = Inl TypeError
          \<and> exposed_history (mount rt (Some st)) = Inl TypeError)"
proof -
  let ?s = "mount rt (Some st)"
  have r: "readHistory rt (Some st) = xs"
    using assms by (rule readHistory_array)
  have h: "history ?s = xs"
    by (simp add: history_mount r)
  have k: "history (run rt es ?s) = xs" if "no_rewrite rt es ?s"
    using that by (simp add: history_run_kept h)
  have g: "history (onSuccess rt uuid now result p (run rt es ?s))
             = take 20 (entry uuid now result p # xs)"
    if "no_rewrite rt es ?s"
    using that by (simp add: history_onSuccess k)
  have c: "exposed_history (run rt es ?s)
             = (case find_selected xs (selectedId (run rt es ?s)) of
                  Inl e \<Rightarrow> Inl e
                | Inr found \<Rightarrow> Inr xs)"
    if "no_rewrite rt es ?s"
    unfolding exposed_history_scan k [OF that] ..
  have e: "exposed_history (run rt es ?s) = Inr xs"
    if "JNull \<notin> set xs" and "no_rewrite rt es ?s"
    using that exposed_history_returns [of "run rt es ?s"] by (simp add: k)
  have t: "useModelGenerator ?s = Inl TypeError \<and> exposed_history ?s = Inl TypeError"
    if "xs \<noteq> []" and "hd xs = JNull"
  proof -
    from that obtain ys where "xs = JNull # ys"
      by (cases xs) auto
    then have "history ?s = JNull # ys"
      by (simp add: h)
    then show ?thesis
      by (simp add: exposed_history_throws)
  qed
  from r h k g c e t show ?thesis by blast
qed

theorem stored_array_loaded_as_is_witness:
  "\<not> getItem_throws \<lparr>item = Some stored_example, getItem_throws = False,
                       setItem_throws = (\<lambda>data. False)\<rparr>
   \<and> stored_example \<noteq> []
   \<and> JSON_parse (table_runtime [(stored_example, JArr parsed_example)]) stored_example
       = Some (JArr parsed_example)
   \<and> length parsed_example = 21
   \<and> JNull \<notin> set parsed_example
   \<and> no_rewrite (table_runtime [(stored_example, JArr parsed_example)])
        [Generate ''wing'', SelectModel ''a'', Reply 0 Rejects ''id-1'' ''t1'', ResetError]
        (mount (table_runtime [(stored_example, JArr parsed_example)])
           (browser (Some stored_example)))
   \<and> history (mount (table_runtime [(stored_example, JArr parsed_example)])
        (browser (Some stored_example))) = parsed_example
   \<and> exposed_history (run (table_runtime [(stored_example, JArr parsed_example)])
        [Generate ''wing'', SelectModel ''a'', Reply 0 Rejects ''id-1'' ''t1'', ResetError]
        (mount (table_runtime [(stored_example, JArr parsed_example)])
           (browser (Some stored_example)))) = Inr parsed_example"
proof -
  let ?rt = "table_runtime [(stored_example, JArr parsed_example)]"
  let ?st = "\<lparr>item = Some stored_example, getItem_throws = False,
              setItem_throws = (\<lambda>data. False)\<rparr>"
  let ?es = "[Generate ''wing'', SelectModel ''a'', Reply 0 Rejects ''id-1'' ''t1'', ResetError]"
  have g: "\<not> getItem_throws ?st" and i: "item ?st = Some stored_example"
    by simp_all
  have n: "stored_example \<noteq> []"
    by (simp add: stored_example_def)
  have p: "JSON_parse ?rt stored_example = Some (JArr parsed_example)"
    by (simp add: table_runtime_def)
  have l: "length parsed_example = 21"
    by (simp add: parsed_example_def)
  have z: "JNull \<notin> set parsed_example"
    by (simp add: parsed_example_def)
  have w: "no_rewrite ?rt ?es (mount ?rt (Some ?st))"
    by (simp add: generateModel_def settle_def selectModel_def mutationFn_request_def
        mutationFn_result_def trim_def is_ws_def mount_def Let_def)
  note loaded = stored_array_loaded_as_is [OF g i n p, of ?es]
  have hm: "history (mount ?rt (Some ?st)) = parsed_example"
    using loaded by blast
  have ex: "exposed_history (run ?rt ?es (mount ?rt (Some ?st))) = Inr parsed_example"
    using loaded z w by blast
  show ?thesis
    unfolding browser_def using g n p l z w hm ex by blast
qed

text \<open>The claim as the specification states it fails for a stored \<^verbatim>\<open>[null]\<close>: the
  array is the query data, but the render throws and the hook returns nothing.\<close>

theorem stored_null_not_exposed:
  "JSON_parse null_runtime ''[null]'' = Some (JArr [JNull])
   \<and> history (mount null_runtime (browser (Some ''[null]''))) = [JNull]
   \<and> useModelGenerator (mount null_runtime (browser (Some ''[null]''))) = Inl TypeError
   \<and> exposed_history (mount null_runtime (browser (Some ''[null]''))) \<noteq> Inr [JNull]"
  by (simp add: hook_defs null_runtime_def selectedModel_def useModelGenerator_def
      exposed_history_def)

subsection \<open>The round trip through the storage\<close>

lemma hex_value_hex_digit: "n < 16 \<Longrightarrow> hex_value (hex_digit n) = Some n"
  by (auto simp: hex_value_def hex_digit_def Let_def)

lemma code_unit_escape:
  assumes "of_char c < (0x20 :: nat)"
  shows "code_unit (CHR ''0'') (CHR ''0'') (hex_digit (of_char c div 16)) (hex_digit (of_char c mod 16)) = Some c"
proof -
  let ?n = "of_char c :: nat"
  have z: "hex_value (CHR ''0'') = Some 0"
    by (simp add: hex_value_def)
  have "?n div 16 < 16" using assms by simp
  then have a: "hex_value (hex_digit (?n div 16)) = Some (?n div 16)"
    by (rule hex_value_hex_digit)
  have b: "hex_value (hex_digit (?n mod 16)) = Some (?n mod 16)"
    by (rule hex_value_hex_digit) simp
  have "(?n div 16) * 16 + ?n mod 16 = ?n" by simp
  then show ?thesis
    using assms by (simp add: code_unit_def z a b Let_def)
qed

lemma parse_chars_escape:
  "parse_chars (escape_char c @ tail) =
     (case parse_chars tail of None \<Rightarrow> None | Some (t, r) \<Rightarrow> Some (c # t, r))"
proof -
  consider (q) "c = CHR 0x22" | (b) "c = CHR 0x5C" | (bs) "c = CHR 0x08" | (ff) "c = CHR 0x0C"
    | (lf) "c = CHR 0x0A" | (cr) "c = CHR 0x0D" | (tab) "c = CHR 0x09"
    | (ctl) "c \<notin> set [CHR 0x22, CHR 0x5C, CHR 0x08, CHR 0x0C, CHR 0x0A, CHR 0x0D, CHR 0x09]" "of_char c < (0x20 :: nat)"
    | (lit) "c \<notin> set [CHR 0x22, CHR 0x5C, CHR 0x08, CHR 0x0C, CHR 0x0A, CHR 0x0D, CHR 0x09]" "\<not> of_char c < (0x20 :: nat)"
    by auto
  then show ?thesis
  proof cases
    case ctl
    then show ?thesis
      by (simp add: escape_char_def code_unit_escape)
  next
    case lit
    then show ?thesis
      by (simp add: escape_char_def)
  qed (auto simp: escape_char_def unescape_def split: option.splits)
qed

lemma parse_chars_quoted:
  "parse_chars (concat (map escape_char t) @ CHR 0x22 # rest) = Some (t, rest)"
  by (induction t) (simp_all add: parse_chars_escape)

lemma skip_ws_nonws: "\<not> is_json_ws c \<Longrightarrow> skip_ws (c # cs) = c # cs"
  by (simp add: skip_ws_def)

lemma value_start_props:
  assumes "value_start c"
  shows "\<not> is_json_ws c" and "c \<noteq> CHR '']''" and "c \<noteq> CHR ''}''"
proof -
  have "\<not> value_start c" if "is_json_ws c"
  proof -
    from that consider "c = CHR 0x20" | "c = CHR 0x09" | "c = CHR 0x0A" | "c = CHR 0x0D"
      by (auto simp: is_json_ws_def)
    then show ?thesis
      by cases (simp_all add: value_start_def)
  qed
  then show "\<not> is_json_ws c"
    using assms by blast
  have "\<not> value_start (CHR '']'')" and "\<not> value_start (CHR ''}'')"
    by (simp_all add: value_start_def)
  then show "c \<noteq> CHR '']''" and "c \<noteq> CHR ''}''"
    using assms by blast+
qed

lemma value_start_number: "c = CHR ''-'' \<or> is_digit c \<Longrightarrow> value_start c"
  unfolding is_digit_def value_start_def by auto

lemma stringify_start:
  assumes "representable nt v"
  obtains c cs where "stringify_json nt v = c # cs" and "value_start c"
proof (cases v)
  case JNull
  show ?thesis
    by (rule that [of "CHR ''n''" "''ull''"]) (simp_all add: JNull value_start_def)
next
  case (JBool b)
  show ?thesis
  proof (cases b)
    case True
    show ?thesis
      by (rule that [of "CHR ''t''" "''rue''"]) (simp_all add: JBool True value_start_def)
  next
    case False
    show ?thesis
      by (rule that [of "CHR ''f''" "''alse''"]) (simp_all add: JBool False value_start_def)
  qed
next
  case (JNum x)
  with assms obtain d where x: "x = Finite d" and t: "number_token (Number_toString nt d)"
    by (cases x) auto
  from t obtain c cs where n: "Number_toString nt d = c # cs" and "c = CHR ''-'' \<or> is_digit c"
    by (cases "Number_toString nt d") (auto simp: number_token_def)
  then have "value_start c"
    by (simp add: value_start_number)
  then show ?thesis
    by (rule that [rotated]) (simp add: JNum x n)
next
  case (JStr t)
  show ?thesis
    by (rule that [of "CHR 0x22" "concat (map escape_char t) @ [CHR 0x22]"])
      (simp_all add: JStr quote_def value_start_def)
next
  case (JArr xs)
  show ?thesis
    by (rule that [of "CHR ''[''" "join (map (stringify_json nt) xs) @ '']''"])
      (simp_all add: JArr value_start_def)
next
  case (JObj kvs)
  show ?thesis
    by (rule that [of "CHR ''{''"
          "join (map (\<lambda>kv. quote (fst kv) @ CHR '':'' # stringify_json nt (snd kv)) kvs) @ ''}''"])
      (simp_all add: JObj value_start_def)
qed


lemma ends_token_simps:
  "ends_token []" "ends_token (CHR '','' # r)" "ends_token (CHR '']'' # r)"
  "ends_token (CHR ''}'' # r)"
  by (simp_all add: ends_token_def is_number_char_def)

lemma number_span:
  assumes "list_all is_number_char t" and "ends_token rest"
  shows "takeWhile is_number_char (t @ rest) = t" and "dropWhile is_number_char (t @ rest) = rest"
proof -
  have a: "\<And>x. x \<in> set t \<Longrightarrow> is_number_char x"
    using assms(1) by (simp add: list_all_iff)
  have b: "takeWhile is_number_char rest = []" "dropWhile is_number_char rest = rest"
    using assms(2) by (cases rest; simp add: ends_token_def)+
  show "takeWhile is_number_char (t @ rest) = t"
    using a by (simp add: takeWhile_append2 b)
  show "dropWhile is_number_char (t @ rest) = rest"
    using a by (simp add: dropWhile_append2 b)
qed

lemma set_property_new:
  "k \<notin> fst ` set acc \<Longrightarrow> set_property k v acc = acc @ [(k, v)]"
  by (induction acc) auto

declare parse_value.simps [simp del] parse_elements.simps [simp del]
  parse_members.simps [simp del]

lemma parse_number_token:
  assumes "number_token t" and "StringToNumber nt t = Some x" and "ends_token rest"
  shows "parse_value nt (Suc n) (t @ rest) = Some (JNum x, rest)"
proof -
  from assms(1) obtain c cs where t: "t = c # cs" and c: "c = CHR ''-'' \<or> is_digit c"
    and all: "list_all is_number_char t"
    by (cases t) (auto simp: number_token_def)
  have v: "value_start c"
    using c by (rule value_start_number)
  have ws: "skip_ws (t @ rest) = c # cs @ rest"
    using value_start_props(1) [OF v] by (simp add: t skip_ws_nonws)
  have ne: "c \<noteq> CHR 0x22" "c \<noteq> CHR ''[''" "c \<noteq> CHR ''{''"
    using c by (auto simp: is_digit_def)
  have span: "takeWhile is_number_char (c # cs @ rest) = t"
    "dropWhile is_number_char (c # cs @ rest) = rest"
    using number_span [OF all assms(3)] by (simp_all add: t)
  show ?thesis
    using c
    by (subst parse_value.simps)
      (simp add: ws ne span assms(2) del: takeWhile.simps dropWhile.simps)
qed

lemma delims_not_ws:
  "\<not> is_json_ws (CHR '','')" "\<not> is_json_ws (CHR '']'')" "\<not> is_json_ws (CHR ''}'')"
  "\<not> is_json_ws (CHR '':'')" "\<not> is_json_ws (CHR 0x22)"
  by (simp_all add: is_json_ws_def)

lemma parse_elements_step:
  assumes "parse_value nt k s = Some (x, c # r)" and "\<not> is_json_ws c"
  shows "parse_elements nt (Suc k) s =
           (if c = CHR '','' then
              (case parse_elements nt k r of None \<Rightarrow> None | Some (xs, r') \<Rightarrow> Some (x # xs, r'))
            else if c = CHR '']'' then Some ([x], r) else None)"
  using assms by (subst parse_elements.simps) (simp add: skip_ws_nonws)

lemma parse_elements_join:
  assumes "xs \<noteq> []"
    and "\<And>x n rest. x \<in> set xs \<Longrightarrow> length (stringify_json nt x) \<le> n \<Longrightarrow> ends_token rest \<Longrightarrow>
           parse_value nt (Suc n) (stringify_json nt x @ rest) = Some (x, rest)"
    and "length (join (map (stringify_json nt) xs)) + 2 \<le> m"
  shows "parse_elements nt m (join (map (stringify_json nt) xs) @ CHR '']'' # rest)
           = Some (xs, rest)"
  using assms
proof (induction xs arbitrary: m rule: list_nonempty_induct)
  case (single x)
  then obtain k where m: "m = Suc (Suc k)" and k: "length (stringify_json nt x) \<le> k"
    by (cases m; cases "m - 1") auto
  have "parse_value nt (Suc k) (stringify_json nt x @ CHR '']'' # rest) = Some (x, CHR '']'' # rest)"
    using single.prems(1) k by (simp add: ends_token_simps)
  then have "parse_elements nt (Suc (Suc k)) (stringify_json nt x @ CHR '']'' # rest)
               = Some ([x], rest)"
    by (simp add: parse_elements_step [OF _ delims_not_ws(2)])
  then show ?case
    by (simp add: m)
next
  case (cons x xs)
  from cons.hyps obtain y ys where xs: "xs = y # ys"
    by (cases xs) auto
  let ?tail = "join (map (stringify_json nt) xs) @ CHR '']'' # rest"
  have j: "join (map (stringify_json nt) (x # xs)) @ CHR '']'' # rest
             = stringify_json nt x @ CHR '','' # ?tail"
    by (simp add: xs)
  have "length (stringify_json nt x) + length (join (map (stringify_json nt) xs)) + 3 \<le> m"
    using cons.prems(2) by (simp add: xs)
  then obtain k where m: "m = Suc (Suc k)"
    and k: "length (stringify_json nt x) \<le> k"
    and k': "length (join (map (stringify_json nt) xs)) + 2 \<le> Suc k"
    by (cases m; cases "m - 1") auto
  have pv: "parse_value nt (Suc k) (stringify_json nt x @ CHR '','' # ?tail)
              = Some (x, CHR '','' # ?tail)"
    using cons.prems(1) k by (simp add: ends_token_simps)
  have pe: "parse_elements nt (Suc k) ?tail = Some (xs, rest)"
    using cons.prems(1) k' by (intro cons.IH) auto
  have "parse_elements nt (Suc (Suc k)) (stringify_json nt x @ CHR '','' # ?tail)
          = Some (x # xs, rest)"
    by (simp add: parse_elements_step [OF pv delims_not_ws(1)] pe)
  then show ?case
    unfolding m j .
qed


lemma stringify_JObj:
  "stringify_json nt (JObj kvs) = CHR ''{'' # join (map (member_text nt) kvs) @ ''}''"
proof -
  have "member_text nt = (\<lambda>kv. quote (fst kv) @ CHR '':'' # stringify_json nt (snd kv))"
    by (rule ext) (simp add: member_text_def)
  then show ?thesis
    by simp
qed

lemma length_member_text:
  "length (stringify_json nt v) < length (member_text nt (key, v))"
  by (simp add: member_text_def)

lemma parse_members_step:
  assumes "parse_value nt k (stringify_json nt v' @ tail) = Some (v, c # r)"
    and "\<not> is_json_ws c"
  shows "parse_members nt (Suc k) acc (member_text nt (key, v') @ tail) =
           (if c = CHR '','' then parse_members nt k (set_property key v acc) r
            else if c = CHR ''}'' then Some (set_property key v acc, r)
            else None)"
proof -
  have t: "member_text nt (key, v') @ tail
             = CHR 0x22 # (concat (map escape_char key) @ CHR 0x22 # CHR '':''
                 # stringify_json nt v' @ tail)"
    by (simp add: member_text_def quote_def)
  show ?thesis
    unfolding t using assms
    by (subst parse_members.simps)
      (simp add: skip_ws_nonws delims_not_ws parse_chars_quoted)
qed

lemma parse_members_join:
  assumes "kvs \<noteq> []"
    and "\<And>kv n rest. kv \<in> set kvs \<Longrightarrow> length (stringify_json nt (snd kv)) \<le> n \<Longrightarrow>
           ends_token rest \<Longrightarrow>
           parse_value nt (Suc n) (stringify_json nt (snd kv) @ rest) = Some (snd kv, rest)"
    and "distinct (map fst (acc @ kvs))"
    and "length (join (map (member_text nt) kvs)) + 2 \<le> m"
  shows "parse_members nt m acc (join (map (member_text nt) kvs) @ CHR ''}'' # rest)
           = Some (acc @ kvs, rest)"
  using assms
proof (induction kvs arbitrary: m acc rule: list_nonempty_induct)
  case (single kv)
  obtain key v where kv: "kv = (key, v)"
    by (cases kv)
  have "length (stringify_json nt v) + 2 \<le> m"
    using single.prems(3) length_member_text [of nt v key] by (simp add: kv)
  then obtain k where m: "m = Suc (Suc k)" and k: "length (stringify_json nt v) \<le> k"
    by (cases m; cases "m - 1") auto
  have pv: "parse_value nt (Suc k) (stringify_json nt v @ CHR ''}'' # rest)
              = Some (v, CHR ''}'' # rest)"
    using single.prems(1) [of kv k "CHR ''}'' # rest"] k by (simp add: kv ends_token_simps)
  have new: "set_property key v acc = acc @ [(key, v)]"
    using single.prems(2) by (intro set_property_new) (auto simp: kv)
  have "parse_members nt (Suc (Suc k)) acc (member_text nt (key, v) @ CHR ''}'' # rest)
          = Some (acc @ [(key, v)], rest)"
    by (subst parse_members_step [OF pv delims_not_ws(3)]) (simp add: new)
  then show ?case
    by (simp add: m kv)
next
  case (cons kv kvs)
  obtain key v where kv: "kv = (key, v)"
    by (cases kv)
  from cons.hyps obtain y ys where kvs: "kvs = y # ys"
    by (cases kvs) auto
  let ?tail = "join (map (member_text nt) kvs) @ CHR ''}'' # rest"
  have j: "join (map (member_text nt) (kv # kvs)) @ CHR ''}'' # rest
             = member_text nt (key, v) @ CHR '','' # ?tail"
    by (simp add: kvs kv)
  have "length (join (map (member_text nt) (kv # kvs)))
          = length (member_text nt (key, v)) + 1 + length (join (map (member_text nt) kvs))"
    by (simp add: kvs kv)
  then have "length (stringify_json nt v) + length (join (map (member_text nt) kvs)) + 3 \<le> m"
    using cons.prems(3) length_member_text [of nt v key] by simp
  then obtain k where m: "m = Suc (Suc k)"
    and k: "length (stringify_json nt v) \<le> k"
    and k': "length (join (map (member_text nt) kvs)) + 2 \<le> Suc k"
    by (cases m; cases "m - 1") auto
  have pv: "parse_value nt (Suc k) (stringify_json nt v @ CHR '','' # ?tail)
              = Some (v, CHR '','' # ?tail)"
    using cons.prems(1) [of kv k "CHR '','' # ?tail"] k by (simp add: kv ends_token_simps)
  have new: "set_property key v acc = acc @ [(key, v)]"
    using cons.prems(2) by (intro set_property_new) (auto simp: kv)
  have pm: "parse_members nt (Suc k) (acc @ [(key, v)]) ?tail = Some ((acc @ [(key, v)]) @ kvs, rest)"
    using cons.prems(1,2) k' by (intro cons.IH) (auto simp: kv)
  have "parse_members nt (Suc (Suc k)) acc (member_text nt (key, v) @ CHR '','' # ?tail)
          = Some (acc @ kv # kvs, rest)"
    by (subst parse_members_step [OF pv delims_not_ws(1)]) (simp add: new pm kv)
  then show ?case
    unfolding m j .
qed

lemma parse_value_stringify:
  assumes "representable nt v" and "length (stringify_json nt v) \<le> n" and "ends_token rest"
  shows "parse_value nt (Suc n) (stringify_json nt v @ rest) = Some (v, rest)"
  using assms
proof (induction v arbitrary: n rest)
  case JNull
  show ?case
    by (subst parse_value.simps) (simp add: skip_ws_def is_json_ws_def is_digit_def)
next
  case (JBool b)
  show ?case
    by (subst parse_value.simps) (simp add: skip_ws_def is_json_ws_def is_digit_def)
next
  case (JNum x)
  then obtain d where x: "x = Finite d" and t: "number_token (Number_toString nt d)"
    and r: "StringToNumber nt (Number_toString nt d) = Some (Finite d)"
    by (cases x) auto
  show ?case
    using parse_number_token [OF t r JNum.prems(3)] by (simp add: x)
next
  case (JStr t)
  show ?case
    by (subst parse_value.simps)
      (simp add: quote_def skip_ws_nonws delims_not_ws parse_chars_quoted)
next
  case (JArr xs)
  show ?case
  proof (cases "xs = []")
    case True
    show ?thesis
      by (subst parse_value.simps) (simp add: True skip_ws_def is_json_ws_def)
  next
    case False
    then obtain y ys where xs: "xs = y # ys"
      by (cases xs) auto
    have ry: "representable nt y" and rall: "\<And>x. x \<in> set xs \<Longrightarrow> representable nt x"
      using JArr.prems(1) by (auto simp: xs list_all_iff)
    obtain c cs where st: "stringify_json nt y = c # cs" and vs: "value_start c"
      using stringify_start [OF ry] by blast
    let ?body = "join (map (stringify_json nt) xs) @ CHR '']'' # rest"
    obtain cs' where body: "?body = c # cs'"
      by (cases ys) (simp_all add: xs st)
    have pe: "parse_elements nt n ?body = Some (xs, rest)"
    proof (rule parse_elements_join [OF False])
      show "parse_value nt (Suc k) (stringify_json nt x @ r) = Some (x, r)"
        if "x \<in> set xs" "length (stringify_json nt x) \<le> k" "ends_token r" for x k r
        using that JArr.IH rall by blast
      show "length (join (map (stringify_json nt) xs)) + 2 \<le> n"
        using JArr.prems(2) by simp
    qed
    have "parse_value nt (Suc n) (CHR ''['' # ?body) = Some (JArr xs, rest)"
      using value_start_props [OF vs] pe
      by (subst parse_value.simps) (simp add: skip_ws_def is_json_ws_def body)
    then show ?thesis
      by simp
  qed
next
  case (JObj kvs)
  show ?case
  proof (cases "kvs = []")
    case True
    show ?thesis
      by (subst parse_value.simps) (simp add: True skip_ws_def is_json_ws_def)
  next
    case False
    let ?body = "join (map (member_text nt) kvs) @ CHR ''}'' # rest"
    obtain y ys where kvs: "kvs = y # ys"
      using False by (cases kvs) auto
    obtain cs' where body: "?body = CHR 0x22 # cs'"
      by (cases ys) (simp_all add: kvs member_text_def quote_def)
    have rall: "\<And>kv. kv \<in> set kvs \<Longrightarrow> representable nt (snd kv)"
      and dist: "distinct (map fst kvs)"
      using JObj.prems(1) by (auto simp: list_all_iff)
    have pm: "parse_members nt n [] ?body = Some ([] @ kvs, rest)"
    proof (rule parse_members_join [OF False])
      show "parse_value nt (Suc k) (stringify_json nt (snd kv) @ r) = Some (snd kv, r)"
        if "kv \<in> set kvs" "length (stringify_json nt (snd kv)) \<le> k" "ends_token r" for kv k r
      proof -
        have "snd kv \<in> Basic_BNFs.snds kv"
          by (cases kv) simp
        then show ?thesis
          using that JObj.IH rall by blast
      qed
      show "distinct (map fst ([] @ kvs))"
        using dist by simp
      show "length (join (map (member_text nt) kvs)) + 2 \<le> n"
        using JObj.prems(2) by (simp add: stringify_JObj del: stringify_json.simps)
    qed
    have "parse_value nt (Suc n) (CHR ''{'' # ?body) = Some (JObj kvs, rest)"
      using pm
      by (subst parse_value.simps) (simp add: skip_ws_def is_json_ws_def body)
    then show ?thesis
      by (simp add: stringify_JObj del: stringify_json.simps)
  qed
qed

lemma parse_json_stringify:
  assumes "representable nt v"
  shows "parse_json nt (stringify_json nt v) = Some v"
proof -
  have "parse_value nt (Suc (length (stringify_json nt v))) (stringify_json nt v @ [])
          = Some (v, [])"
    using assms by (intro parse_value_stringify) (simp_all add: ends_token_simps)
  then show ?thesis
    by (simp add: parse_json_def skip_ws_def)
qed

lemma stringify_array_nonempty: "stringify_json nt (JArr h) \<noteq> []"
  by simp

text \<open>
  Claim C6, as the code has it. \<^verbatim>\<open>persistHistory\<close> writes \<^verbatim>\<open>JSON.stringify(entries)\<close>
  and \<^verbatim>\<open>readHistory\<close> returns what \<^verbatim>\<open>JSON.parse\<close> makes of it. For every history whose
  values JSON can represent (every number in it is finite and is read back from the token
  written for it, as the finite doubles other than negative zero are; every object holds
  each key once), the text read back is the history itself, in a browser whose storage
  accepts the write and allows the read; the bound of 20, the ids and the presence of
  fields play no part. A history that holds a number that is not finite does not come
  back: \<^verbatim>\<open>JSON.stringify\<close> writes such a number as \<^verbatim>\<open>null\<close>.
\<close>

theorem persist_then_read:
  assumes "list_all (representable nt) h"
    and "\<not> getItem_throws st"
    and "\<not> setItem_throws st (stringify_json nt (JArr h))"
  shows "JSON_parse (js_runtime nt) (JSON_stringify (js_runtime nt) (JArr h)) = Some (JArr h)
       \<and> readHistory (js_runtime nt) (persistHistory (js_runtime nt) h (Some st)) = h
       \<and> readHistory (js_runtime nt)
            (Some (st\<lparr>item := Some (JSON_stringify (js_runtime nt) (JArr h))\<rparr>)) = h"
proof -
  let ?text = "stringify_json nt (JArr h)"
  let ?st' = "st\<lparr>item := Some ?text\<rparr>"
  have p: "parse_json nt ?text = Some (JArr h)"
    using assms(1) by (intro parse_json_stringify) simp
  have w: "persistHistory (js_runtime nt) h (Some st) = Some ?st'"
    using assms(3) by (simp add: persistHistory_def persistHistory_try_def js_runtime_def Let_def)
  have r: "readHistory (js_runtime nt) (Some ?st') = h"
    using assms(2) p
    by (intro readHistory_array [where d = ?text])
      (simp_all add: js_runtime_def del: stringify_json.simps add: stringify_array_nonempty)
  show ?thesis
    using p w r by (simp add: js_runtime_def del: stringify_json.simps)
qed

theorem persist_then_read_witness:
  "list_all (representable no_number_text) [entry_example]
   \<and> \<not> getItem_throws \<lparr>item = None, getItem_throws = False, setItem_throws = (\<lambda>data. False)\<rparr>
   \<and> stringify_json no_number_text (JArr [entry_example]) = entry_example_text
   \<and> JSON_parse (js_runtime no_number_text) entry_example_text = Some (JArr [entry_example])
   \<and> readHistory (js_runtime no_number_text)
        (persistHistory (js_runtime no_number_text) [entry_example] (browser None))
       = [entry_example]"
proof -
  let ?nt = no_number_text
  let ?st = "\<lparr>item = None, getItem_throws = False, setItem_throws = (\<lambda>data. False)\<rparr>"
  have r: "list_all (representable ?nt) [entry_example]"
    by (simp add: entry_example_def)
  have t: "stringify_json ?nt (JArr [entry_example]) = entry_example_text"
    by (simp add: entry_example_def entry_example_text_def quote_def escape_char_def)
  have g: "\<not> getItem_throws ?st"
    by simp
  have a: "\<not> setItem_throws ?st (stringify_json ?nt (JArr [entry_example]))"
    by simp
  have j: "JSON_stringify (js_runtime ?nt) (JArr [entry_example]) = entry_example_text"
    using t by (simp add: js_runtime_def)
  show ?thesis
    using persist_then_read [OF r g a] r t unfolding j
    by (simp add: browser_def)
qed

text \<open>The claim as the specification states it fails for a history the hook itself
  builds: the reply carries a number that is not finite, the record made of it satisfies
  the bound, has its id and its fields, and what is read back from the storage holds
  \<^verbatim>\<open>null\<close> in place of the number.\<close>

theorem infinite_number_not_read_back:
  "history (run (js_runtime no_number_text)
      [Generate ''biplane wing'', Reply 0 reply_infinite ''id-1'' ''t1'']
      (mount (js_runtime no_number_text) (browser None))) = [record_infinite]
   \<and> readHistory (js_runtime no_number_text)
        (window (run (js_runtime no_number_text)
           [Generate ''biplane wing'', Reply 0 reply_infinite ''id-1'' ''t1'']
           (mount (js_runtime no_number_text) (browser None)))) = [record_nulled]
   \<and> readHistory (js_runtime no_number_text)
        (persistHistory (js_runtime no_number_text) [record_infinite] (browser None))
       \<noteq> [record_infinite]
   \<and> length [record_infinite] \<le> 20
   \<and> distinct (ids [record_infinite])
   \<and> list_all has_string_id [record_infinite]"
proof -
  let ?nt = no_number_text
  let ?rt = "js_runtime ?nt"
  let ?text = "stringify_json ?nt (JArr [record_nulled])"
  let ?st = "\<lparr>item = Some ?text, getItem_throws = False, setItem_throws = (\<lambda>data. False)\<rparr>"
  have s: "stringify_json ?nt (JArr [record_infinite]) = ?text"
    by (simp add: record_infinite_def record_nulled_def)
  have p: "JSON_parse ?rt ?text = Some (JArr [record_nulled])"
    unfolding js_runtime_def
    by (simp del: stringify_json.simps, intro parse_json_stringify) (simp add: record_nulled_def)
  have rd: "readHistory ?rt (Some ?st) = [record_nulled]"
    using p by (intro readHistory_array [where d = ?text]) (simp_all del: stringify_json.simps add: stringify_array_nonempty)
  have w: "persistHistory ?rt [record_infinite] (browser None) = Some ?st"
    using s by (simp add: persistHistory_def persistHistory_try_def browser_def js_runtime_def Let_def del: stringify_json.simps)
  have h: "history (run ?rt [Generate ''biplane wing'', Reply 0 reply_infinite ''id-1'' ''t1'']
      (mount ?rt (browser None))) = [record_infinite]"
    by (simp add: hook_defs reply_infinite_def record_infinite_def del: stringify_json.simps)
  have e: "entry ''id-1'' ''t1'' \<lparr>url = Some ''a.glb'', metadata = Some [(''lift'', JNum PosInfinity)],
              thumbnailUrl = None, prompt = ''biplane wing''\<rparr> ''biplane wing'' = record_infinite"
    by (simp add: entry_def property_def record_infinite_def)
  have win: "window (run ?rt [Generate ''biplane wing'', Reply 0 reply_infinite ''id-1'' ''t1'']
      (mount ?rt (browser None))) = Some ?st"
    using w
    by (simp add: generateModel_def settle_def onSuccess_def mutationFn_request_def
        mutationFn_result_def reply_infinite_def trim_def is_ws_def mount_def history_def
        readHistory_def readHistory_try_def browser_def e Let_def del: stringify_json.simps)
  have ne: "[record_nulled] \<noteq> [record_infinite]"
    by (simp add: record_nulled_def record_infinite_def)
  have v: "distinct (ids [record_infinite])" "list_all has_string_id [record_infinite]"
    by (simp_all add: ids_def record_infinite_def)
  show ?thesis
    using h v ne unfolding win w rd by simp
qed

end
